theory Spec2Isabelle
  imports Main
begin

section \<open>Text\<close>

text \<open>
  A JavaScript string is modelled as the \<^typ>\<open>string\<close> of the bytes of its UTF-8 encoding, so
  text outside ASCII is several bytes a character. Lengths and slices count bytes, which
  are the code units of ASCII text.
\<close>

definition LF :: char where
  "LF = CHR 0x0A"

text \<open>
  The characters that \<open>String.prototype.trim\<close> strips and that \<open>\s\<close> matches in a regular
  expression, the white space and line terminators of ECMAScript, each as its encoding:
  U+0009 to U+000D, U+0020, U+00A0, U+1680, U+2000 to U+200A, U+2028, U+2029, U+202F,
  U+205F, U+3000 and U+FEFF.
\<close>

definition white_space :: "string list" where
  "white_space =
     [[CHR 0x09], [CHR 0x0A], [CHR 0x0B], [CHR 0x0C], [CHR 0x0D], [CHR 0x20],
      [CHR 0xC2, CHR 0xA0],
      [CHR 0xE1, CHR 0x9A, CHR 0x80],
      [CHR 0xE2, CHR 0x80, CHR 0x80], [CHR 0xE2, CHR 0x80, CHR 0x81],
      [CHR 0xE2, CHR 0x80, CHR 0x82], [CHR 0xE2, CHR 0x80, CHR 0x83],
      [CHR 0xE2, CHR 0x80, CHR 0x84], [CHR 0xE2, CHR 0x80, CHR 0x85],
      [CHR 0xE2, CHR 0x80, CHR 0x86], [CHR 0xE2, CHR 0x80, CHR 0x87],
      [CHR 0xE2, CHR 0x80, CHR 0x88], [CHR 0xE2, CHR 0x80, CHR 0x89],
      [CHR 0xE2, CHR 0x80, CHR 0x8A],
      [CHR 0xE2, CHR 0x80, CHR 0xA8], [CHR 0xE2, CHR 0x80, CHR 0xA9],
      [CHR 0xE2, CHR 0x80, CHR 0xAF],
      [CHR 0xE2, CHR 0x81, CHR 0x9F],
      [CHR 0xE3, CHR 0x80, CHR 0x80],
      [CHR 0xEF, CHR 0xBB, CHR 0xBF]]"

text \<open>
  The number of bytes of the white-space character a text starts with, 0 when it starts
  with none. In UTF-8 the bytes of a character occur only where that character stands, so
  a text starts (ends) with a white-space character exactly when it starts (ends) with
  the bytes of one.
\<close>

definition space_at :: "string list \<Rightarrow> string \<Rightarrow> nat" where
  "space_at ws s =
     (case find (\<lambda>w. w \<noteq> [] \<and> take (length w) s = w) ws of
        None \<Rightarrow> 0
      | Some w \<Rightarrow> length w)"

function drop_spaces :: "string list \<Rightarrow> string \<Rightarrow> string" where
  "drop_spaces ws s =
     (if space_at ws s = 0 then s else drop_spaces ws (drop (space_at ws s) s))"
  by pat_completeness auto
termination
proof (relation "measure (\<lambda>(ws, s). length s)")
  show "wf (measure (\<lambda>(ws :: string list, s :: string). length s))"
    by simp
next
  fix ws :: "string list" and s :: string
  assume "space_at ws s \<noteq> 0"
  then obtain w where "w \<noteq> []" and "take (length w) s = w"
    by (auto simp: space_at_def find_Some_iff split: option.splits)
  then have "s \<noteq> []"
    by auto
  with \<open>space_at ws s \<noteq> 0\<close>
  show "((ws, drop (space_at ws s) s), (ws, s)) \<in> measure (\<lambda>(ws, s). length s)"
    by simp
qed

declare drop_spaces.simps [simp del]

text \<open>
  \<open>trimStart\<close> drops the white space a text starts with, \<open>trimEnd\<close> the white space it
  ends with, read from the end; \<open>trim\<close> does both.
\<close>

definition trimStart :: "string \<Rightarrow> string" where
  "trimStart s = drop_spaces white_space s"

definition trimEnd :: "string \<Rightarrow> string" where
  "trimEnd s = rev (drop_spaces (map rev white_space) (rev s))"

definition js_trim :: "string \<Rightarrow> string" where
  "js_trim s = trimEnd (trimStart s)"

definition startsWith :: "string \<Rightarrow> string \<Rightarrow> bool" where
  "startsWith s p \<longleftrightarrow> take (length p) s = p"

fun cons_first :: "'a \<Rightarrow> 'a list list \<Rightarrow> 'a list list" where
  "cons_first a [] = [[a]]"
| "cons_first a (s # ss) = (a # s) # ss"

text \<open>
  \<open>buffer.split("\n\n")\<close>: the segments between the occurrences of the delimiter, found
  from the left and not overlapping. The result is never empty: a text without delimiter
  is its own single segment.
\<close>

fun split_nn :: "string \<Rightarrow> string list" where
  "split_nn [] = [[]]"
| "split_nn [c] = [[c]]"
| "split_nn (a # b # rest) =
     (if a = LF \<and> b = LF then [] # split_nn rest
      else cons_first a (split_nn (b # rest)))"

text \<open>\<open>name.split(".")\<close>, and in general splitting at one character.\<close>

fun split_char :: "char \<Rightarrow> string \<Rightarrow> string list" where
  "split_char d [] = [[]]"
| "split_char d (c # cs) =
     (if c = d then [] # split_char d cs else cons_first c (split_char d cs))"

text \<open>
  The last element of an array, as \<open>lines.pop()\<close> and \<open>updated[updated.length - 1]\<close> read
  it: \<open>undefined\<close> on the empty array. \<open>pop\<close> also removes it.
\<close>

definition pop :: "'a list \<Rightarrow> 'a option" where
  "pop xs = (if xs = [] then None else Some (xs ! (length xs - 1)))"

definition pop_rest :: "'a list \<Rightarrow> 'a list" where
  "pop_rest xs = take (length xs - 1) xs"

text \<open>Does the delimiter occur in the text?\<close>

fun has_delim :: "string \<Rightarrow> bool" where
  "has_delim [] = False"
| "has_delim [c] = False"
| "has_delim (a # b # rest) = ((a = LF \<and> b = LF) \<or> has_delim (b # rest))"

text \<open>\<open>segments.join("\n\n")\<close>, the inverse of the split.\<close>

fun join_nn :: "string list \<Rightarrow> string" where
  "join_nn [] = []"
| "join_nn [s] = s"
| "join_nn (s # t # ss) = s @ [LF, LF] @ join_nn (t # ss)"


section \<open>The SSE frame decoder of \<open>streamChat\<close>\<close>

text \<open>
  The values \<open>JSON.parse\<close> returns, with \<open>undefined\<close> for an absent property. An object
  is the list of its properties, each name once. Numbers are kept as integers: the decoder
  looks at a number only to see whether it is zero.
  \<open>JSON.parse\<close> itself belongs to the platform; the decoder takes it as the parameter
  \<open>parse\<close>, which returns \<open>None\<close> where \<open>JSON.parse\<close> throws.
\<close>

datatype jsval =
    JUndefined
  | JNull
  | JBool bool
  | JNum int
  | JStr string
  | JArr "jsval list"
  | JObj "(string \<times> jsval) list"

datatype js_error = SyntaxError | TypeError

text \<open>
  Reading one of the properties the program reads (\<open>type\<close>, \<open>content\<close>, \<open>length\<close>): a
  \<open>TypeError\<close> on \<open>null\<close> and \<open>undefined\<close>, the length of a string or an array, \<open>undefined\<close>
  when absent.
\<close>

fun js_get :: "jsval \<Rightarrow> string \<Rightarrow> js_error + jsval" where
  "js_get JUndefined k = Inl TypeError"
| "js_get JNull k = Inl TypeError"
| "js_get (JObj kvs) k = Inr (case map_of kvs k of None \<Rightarrow> JUndefined | Some v \<Rightarrow> v)"
| "js_get (JStr s) k = Inr (if k = ''length'' then JNum (int (length s)) else JUndefined)"
| "js_get (JArr vs) k = Inr (if k = ''length'' then JNum (int (length vs)) else JUndefined)"
| "js_get v k = Inr JUndefined"

fun truthy :: "jsval \<Rightarrow> bool" where
  "truthy JUndefined = False"
| "truthy JNull = False"
| "truthy (JBool b) = b"
| "truthy (JNum n) = (n \<noteq> 0)"
| "truthy (JStr s) = (s \<noteq> [])"
| "truthy v = True"

text \<open>The callbacks the decoder invokes, each with the argument it is given.\<close>

datatype callback =
    OnToken jsval
  | OnSources jsval
  | OnDone
  | OnError jsval

text \<open>The \<open>switch (event.type)\<close>; the comparison of a \<open>case\<close> is strict equality.\<close>

definition dispatch :: "jsval \<Rightarrow> js_error + callback list" where
  "dispatch event =
     (case js_get event ''type'' of
        Inl e \<Rightarrow> Inl e
      | Inr ty \<Rightarrow>
          if ty = JStr ''token'' then
            (case js_get event ''content'' of
               Inl e \<Rightarrow> Inl e
             | Inr c \<Rightarrow> Inr [OnToken c])
          else if ty = JStr ''sources'' then
            (case js_get event ''content'' of
               Inl e \<Rightarrow> Inl e
             | Inr c \<Rightarrow> Inr [OnSources (if truthy c then c else JArr [])])
          else if ty = JStr ''done'' then Inr [OnDone]
          else if ty = JStr ''error'' then
            (case js_get event ''content'' of
               Inl e \<Rightarrow> Inl e
             | Inr c \<Rightarrow> Inr [OnError c])
          else Inr [])"

text \<open>The body of the \<open>try\<close> block for one segment, after the prefix test.\<close>

definition try_frame :: "(string \<Rightarrow> jsval option) \<Rightarrow> string \<Rightarrow> js_error + callback list" where
  "try_frame parse jsonStr =
     (case parse jsonStr of
        None \<Rightarrow> Inl SyntaxError
      | Some event \<Rightarrow> dispatch event)"

text \<open>One iteration of \<open>for (const line of lines)\<close>; the \<open>catch\<close> ignores every exception.\<close>

definition process_line :: "(string \<Rightarrow> jsval option) \<Rightarrow> string \<Rightarrow> callback list" where
  "process_line parse line =
     (let trimmed = js_trim line in
      if \<not> startsWith trimmed ''data: '' then []
      else (case try_frame parse (drop 6 trimmed) of
              Inl e \<Rightarrow> []
            | Inr cbs \<Rightarrow> cbs))"

definition process_lines :: "(string \<Rightarrow> jsval option) \<Rightarrow> string list \<Rightarrow> callback list" where
  "process_lines parse lines = concat (map (process_line parse) lines)"

text \<open>
  One iteration of the read loop on a chunk of decoded text: the callbacks invoked and the
  new buffer. \<open>TextDecoder\<close> in streaming mode holds back an incomplete character, so the
  decoded texts of the chunks concatenate to the decoded text of the stream.
\<close>

definition read_chunk ::
  "(string \<Rightarrow> jsval option) \<Rightarrow> string \<Rightarrow> string \<Rightarrow> callback list \<times> string" where
  "read_chunk parse buffer chunk =
     (let buffer1 = buffer @ chunk;
          lines = split_nn buffer1;
          buffer2 = (case pop lines of None \<Rightarrow> [] | Some l \<Rightarrow> l)
      in (process_lines parse (pop_rest lines), buffer2))"

text \<open>
  The read loop over the chunks of a stream, until the reader reports \<open>done\<close>; what is left
  in the buffer then is not looked at.
\<close>

fun read_loop :: "(string \<Rightarrow> jsval option) \<Rightarrow> string \<Rightarrow> string list \<Rightarrow> callback list" where
  "read_loop parse buffer [] = []"
| "read_loop parse buffer (chunk # chunks) =
     (case read_chunk parse buffer chunk of
        (cbs, buffer2) \<Rightarrow> cbs @ read_loop parse buffer2 chunks)"

text \<open>The buffer after the chunks.\<close>

fun read_buffer :: "string \<Rightarrow> string list \<Rightarrow> string" where
  "read_buffer buffer [] = buffer"
| "read_buffer buffer (chunk # chunks) =
     read_buffer (case pop (split_nn (buffer @ chunk)) of None \<Rightarrow> [] | Some l \<Rightarrow> l) chunks"

text \<open>
  A finite table of \<open>JSON.parse\<close> on the texts of the closed examples; every other text
  is treated as not being JSON.
\<close>

definition parse_table :: "string \<Rightarrow> jsval option" where
  "parse_table s =
     (if s = ''{\"type\":\"token\",\"content\":\"Hello\"}''
        then Some (JObj [(''type'', JStr ''token''), (''content'', JStr ''Hello'')])
      else if s = ''{\"type\":\"done\"}'' then Some (JObj [(''type'', JStr ''done'')])
      else if s = ''{\"type\":\"ping\"}'' then Some (JObj [(''type'', JStr ''ping'')])
      else if s = ''null'' then Some JNull
      else None)"


section \<open>Messages\<close>

datatype Role = User | Assistant

record Source =
  filename :: string
  page :: "int + string"
  snippet :: "string option"

record ChatMessage =
  role :: Role
  content :: string
  sources :: "Source list option"

text \<open>The template literal of the error notice: the Cyrillic word for error, a colon, a space.\<close>

definition error_label :: string where
  "error_label =
     [CHR 0xD0, CHR 0x9E, CHR 0xD1, CHR 0x88, CHR 0xD0, CHR 0xB8, CHR 0xD0, CHR 0xB1,
      CHR 0xD0, CHR 0xBA, CHR 0xD0, CHR 0xB0, CHR 0x3A, CHR 0x20]"

definition error_notice :: "string \<Rightarrow> string" where
  "error_notice error = error_label @ error"

text \<open>
  The three updaters handed to \<open>onMessagesChange\<close> by the streaming callbacks. Each copies
  the list, reads its last element (\<open>undefined\<close> on the empty list) and replaces it when its
  role is \<open>"assistant"\<close>.
\<close>

definition append_chunk :: "string \<Rightarrow> ChatMessage list \<Rightarrow> ChatMessage list" where
  "append_chunk chunk prev =
     (let updated = prev in
      case pop updated of
        None \<Rightarrow> updated
      | Some last_msg \<Rightarrow>
          if role last_msg = Assistant
          then updated[length updated - 1 := last_msg\<lparr>content := content last_msg @ chunk\<rparr>]
          else updated)"

definition replace_sources :: "Source list \<Rightarrow> ChatMessage list \<Rightarrow> ChatMessage list" where
  "replace_sources srcs prev =
     (let updated = prev in
      case pop updated of
        None \<Rightarrow> updated
      | Some last_msg \<Rightarrow>
          if role last_msg = Assistant
          then updated[length updated - 1 := last_msg\<lparr>sources := Some srcs\<rparr>]
          else updated)"

definition overwrite_error :: "string \<Rightarrow> ChatMessage list \<Rightarrow> ChatMessage list" where
  "overwrite_error error prev =
     (let updated = prev in
      case pop updated of
        None \<Rightarrow> updated
      | Some last_msg \<Rightarrow>
          if role last_msg = Assistant
          then updated[length updated - 1 := last_msg\<lparr>content := error_notice error\<rparr>]
          else updated)"


section \<open>The chat component\<close>

text \<open>
  The state of the component: its React state (\<open>input\<close>, \<open>isLoading\<close>), its four refs, the
  \<open>chatId\<close> property, and what it acts on: the message lists of the sessions (written
  through \<open>onMessagesChange\<close>), the abort controllers it has created, numbered in order of
  creation, with the set of those whose \<open>abort\<close> was called, and the calls of \<open>streamChat\<close>.
  An event handler runs to its end before the next one starts, and a state update is
  visible to the next handler.

  The callbacks that \<open>handleSubmit\<close> hands to \<open>streamChat\<close> are closures: they keep the
  controller of their submission and the \<open>onMessagesChange\<close> of the render they were made in,
  which writes to the session that was active then. The interval callback of the typewriter
  keeps the \<open>onMessagesChange\<close> of the callback that started it.
\<close>

type_synonym chat_id = string

record stream =
  controller :: nat
  chat :: chat_id

record request =
  req_controller :: nat
  req_question :: string
  req_history :: "(Role \<times> string) list"

record chat_state =
  chatId :: chat_id
  store :: "chat_id \<Rightarrow> ChatMessage list"
  input :: string
  isLoading :: bool
  requestControllerRef :: "nat option"
  tokenQueueRef :: string
  streamDoneRef :: bool
  typingTimerRef :: "chat_id option"
  aborted :: "nat set"
  controllers :: nat
  requests :: "request list"

definition TYPEWRITER_INTERVAL_MS :: nat where
  "TYPEWRITER_INTERVAL_MS = 14"

definition CHARS_PER_TICK :: nat where
  "CHARS_PER_TICK = 1"

definition onMessagesChange ::
  "chat_id \<Rightarrow> (ChatMessage list \<Rightarrow> ChatMessage list) \<Rightarrow> chat_state \<Rightarrow> chat_state" where
  "onMessagesChange cid updater s = s\<lparr>store := (store s)(cid := updater (store s cid))\<rparr>"

definition appendAssistantChunk :: "chat_id \<Rightarrow> string \<Rightarrow> chat_state \<Rightarrow> chat_state" where
  "appendAssistantChunk cid chunk s = onMessagesChange cid (append_chunk chunk) s"

definition stopTypingTimer :: "chat_state \<Rightarrow> chat_state" where
  "stopTypingTimer s =
     (if typingTimerRef s \<noteq> None then s\<lparr>typingTimerRef := None\<rparr> else s)"

definition finalizeIfStreamFinished :: "chat_state \<Rightarrow> chat_state" where
  "finalizeIfStreamFinished s =
     (if streamDoneRef s \<and> length (tokenQueueRef s) = 0
      then (stopTypingTimer s)\<lparr>isLoading := False, requestControllerRef := None\<rparr>
      else s)"

text \<open>The interval callback registered by \<open>startTypewriter\<close>, writing to session \<open>cid\<close>.\<close>

definition tick :: "chat_id \<Rightarrow> chat_state \<Rightarrow> chat_state" where
  "tick cid s =
     (if length (tokenQueueRef s) = 0 then finalizeIfStreamFinished s
      else
        let chunk = take CHARS_PER_TICK (tokenQueueRef s);
            s1 = s\<lparr>tokenQueueRef := drop CHARS_PER_TICK (tokenQueueRef s)\<rparr>;
            s2 = appendAssistantChunk cid chunk s1
        in finalizeIfStreamFinished s2)"

definition startTypewriter :: "chat_id \<Rightarrow> chat_state \<Rightarrow> chat_state" where
  "startTypewriter cid s =
     (if typingTimerRef s \<noteq> None then s else s\<lparr>typingTimerRef := Some cid\<rparr>)"

text \<open>
  \<open>handleSubmit\<close> up to the call of \<open>streamChat\<close>, which is recorded with the history it is
  given: the \<open>messages\<close> property of the render, before the two new messages. The call of
  \<open>preventDefault\<close> on the form event acts on no part of the state.
\<close>

definition handleSubmit :: "chat_state \<Rightarrow> chat_state" where
  "handleSubmit s =
     (let question = js_trim (input s) in
      if question = [] \<or> isLoading s then s
      else
        let c = controllers s;
            s1 = s\<lparr>controllers := c + 1, requestControllerRef := Some c,
                   tokenQueueRef := [], streamDoneRef := False\<rparr>;
            s2 = stopTypingTimer s1;
            userMessage = \<lparr>role = User, content = question, sources = None\<rparr>;
            assistantMessage = \<lparr>role = Assistant, content = [], sources = Some []\<rparr>;
            s3 = onMessagesChange (chatId s) (\<lambda>prev. prev @ [userMessage, assistantMessage]) s2;
            s4 = s3\<lparr>input := [], isLoading := True\<rparr>
        in s4\<lparr>requests := requests s4 @
                 [\<lparr>req_controller = c, req_question = question,
                   req_history = map (\<lambda>msg. (role msg, content msg)) (store s (chatId s))\<rparr>]\<rparr>)"

definition onToken :: "stream \<Rightarrow> string \<Rightarrow> chat_state \<Rightarrow> chat_state" where
  "onToken st token s =
     (if controller st \<in> aborted s then s
      else startTypewriter (chat st) (s\<lparr>tokenQueueRef := tokenQueueRef s @ token\<rparr>))"

definition onSources :: "stream \<Rightarrow> Source list \<Rightarrow> chat_state \<Rightarrow> chat_state" where
  "onSources st srcs s =
     (if controller st \<in> aborted s then s
      else onMessagesChange (chat st) (replace_sources srcs) s)"

definition onDone :: "stream \<Rightarrow> chat_state \<Rightarrow> chat_state" where
  "onDone st s =
     (if controller st \<in> aborted s then s
      else finalizeIfStreamFinished (s\<lparr>streamDoneRef := True\<rparr>))"

definition onError :: "stream \<Rightarrow> string \<Rightarrow> chat_state \<Rightarrow> chat_state" where
  "onError st error s =
     (if controller st \<in> aborted s then s
      else
        let s1 = stopTypingTimer s;
            s2 = s1\<lparr>tokenQueueRef := [], streamDoneRef := False\<rparr>;
            s3 = onMessagesChange (chat st) (overwrite_error error) s2
        in s3\<lparr>isLoading := False, requestControllerRef := None\<rparr>)"

text \<open>\<open>requestControllerRef.current?.abort()\<close>\<close>

definition abort_current :: "chat_state \<Rightarrow> chat_state" where
  "abort_current s =
     (case requestControllerRef s of
        None \<Rightarrow> s
      | Some c \<Rightarrow> s\<lparr>aborted := insert c (aborted s)\<rparr>)"

text \<open>The effect that depends on \<open>chatId\<close>: it runs when the component is given another session.\<close>

definition chatIdEffect :: "chat_state \<Rightarrow> chat_state" where
  "chatIdEffect s =
     (let s1 = stopTypingTimer s;
          s2 = s1\<lparr>tokenQueueRef := [], streamDoneRef := False\<rparr>;
          s3 = abort_current s2
      in s3\<lparr>requestControllerRef := None, isLoading := False, input := []\<rparr>)"

definition switchChat :: "chat_id \<Rightarrow> chat_state \<Rightarrow> chat_state" where
  "switchChat new s = (if new = chatId s then s else chatIdEffect (s\<lparr>chatId := new\<rparr>))"

text \<open>The cleanup of the effect without dependencies: it runs when the component unmounts.\<close>

definition unmount :: "chat_state \<Rightarrow> chat_state" where
  "unmount s =
     (let s1 = stopTypingTimer s;
          s2 = abort_current s1
      in s2\<lparr>requestControllerRef := None\<rparr>)"

text \<open>The component after mounting on session \<open>cid\<close>, with the message lists \<open>st\<close>.\<close>

definition mount :: "chat_id \<Rightarrow> (chat_id \<Rightarrow> ChatMessage list) \<Rightarrow> chat_state" where
  "mount cid st =
     \<lparr>chatId = cid, store = st, input = [], isLoading = False, requestControllerRef = None,
      tokenQueueRef = [], streamDoneRef = False, typingTimerRef = None, aborted = {},
      controllers = 0, requests = []\<rparr>"

text \<open>
  What can happen to the component. A tick happens only while an interval is registered.
\<close>

datatype event =
    SetInput string
  | Submit
  | Token stream string
  | Sources stream "Source list"
  | Done stream
  | Error stream string
  | Tick
  | SwitchChat chat_id
  | Unmount

fun step :: "event \<Rightarrow> chat_state \<Rightarrow> chat_state" where
  "step (SetInput v) s = s\<lparr>input := v\<rparr>"
| "step Submit s = handleSubmit s"
| "step (Token st token) s = onToken st token s"
| "step (Sources st srcs) s = onSources st srcs s"
| "step (Done st) s = onDone st s"
| "step (Error st error) s = onError st error s"
| "step Tick s = (case typingTimerRef s of None \<Rightarrow> s | Some cid \<Rightarrow> tick cid s)"
| "step (SwitchChat new) s = switchChat new s"
| "step Unmount s = unmount s"

definition run :: "event list \<Rightarrow> chat_state \<Rightarrow> chat_state" where
  "run evs s = fold step evs s"

text \<open>The text of the tokens among some events, in their order.\<close>

fun token_text :: "event \<Rightarrow> string" where
  "token_text (Token st token) = token"
| "token_text e = []"

definition arrived :: "event list \<Rightarrow> string" where
  "arrived evs = concat (map token_text evs)"

text \<open>The events of one stream while it is read: its tokens and sources, and the ticks.\<close>

fun streaming :: "stream \<Rightarrow> event \<Rightarrow> bool" where
  "streaming st (Token st' token) = (st' = st)"
| "streaming st (Sources st' srcs) = (st' = st)"
| "streaming st Tick = True"
| "streaming st e = False"

text \<open>Is the event a callback of the stream with this controller?\<close>

fun callback_of :: "nat \<Rightarrow> event \<Rightarrow> bool" where
  "callback_of c (Token st token) = (controller st = c)"
| "callback_of c (Sources st srcs) = (controller st = c)"
| "callback_of c (Done st) = (controller st = c)"
| "callback_of c (Error st error) = (controller st = c)"
| "callback_of c e = False"

text \<open>The message the component shows last in a session.\<close>

definition last_content :: "chat_id \<Rightarrow> chat_state \<Rightarrow> string" where
  "last_content cid s = content (last (store s cid))"


text \<open>
  A stream is open in a state when its controller is not aborted, the last message of its
  session is an assistant message (its placeholder), and the typewriter, if an interval is
  registered, writes to that session and is registered whenever text is queued.
\<close>

definition stream_open :: "stream \<Rightarrow> chat_state \<Rightarrow> bool" where
  "stream_open st s \<longleftrightarrow>
     controller st \<notin> aborted s
   \<and> store s (chat st) \<noteq> []
   \<and> role (last (store s (chat st))) = Assistant
   \<and> (typingTimerRef s = None \<or> typingTimerRef s = Some (chat st))
   \<and> (tokenQueueRef s = [] \<or> typingTimerRef s = Some (chat st))"

text \<open>The events of a stream that is read to its end without error: the above and \<open>Done\<close>.\<close>

definition of_stream :: "stream \<Rightarrow> event \<Rightarrow> bool" where
  "of_stream st e \<longleftrightarrow> streaming st e \<or> e = Done st"


text \<open>
  A state and two streams for the closed examples: the component mounted on session \<open>a\<close>
  with a question typed, the stream of its first submission, and the stream of a second
  submission made in session \<open>b\<close>.
\<close>

definition example_idle :: chat_state where
  "example_idle = (mount ''a'' (\<lambda>c. []))\<lparr>input := ''hi''\<rparr>"

definition example_stream :: stream where
  "example_stream = \<lparr>controller = 0, chat = ''a''\<rparr>"

definition example_stream2 :: stream where
  "example_stream2 = \<lparr>controller = 1, chat = ''b''\<rparr>"


section \<open>The session list of the application\<close>

text \<open>
  The clock and the source of identifiers (\<open>crypto.randomUUID\<close>) are inputs: every creation
  of a session takes the time and the identifier it is given.
\<close>

record ChatSession =
  session_id :: string
  title :: string
  messages :: "ChatMessage list"
  createdAt :: string
  updatedAt :: string

definition DEFAULT_CHAT_TITLE :: string where
  "DEFAULT_CHAT_TITLE =
     [CHR 0xD0, CHR 0x9D, CHR 0xD0, CHR 0xBE, CHR 0xD0, CHR 0xB2, CHR 0xD1, CHR 0x8B,
      CHR 0xD0, CHR 0xB9, CHR 0x20, CHR 0xD1, CHR 0x87, CHR 0xD0, CHR 0xB0, CHR 0xD1,
      CHR 0x82]"

definition createChatSession :: "string \<Rightarrow> string \<Rightarrow> ChatSession" where
  "createChatSession now new_id =
     \<lparr>session_id = new_id, title = DEFAULT_CHAT_TITLE, messages = [],
      createdAt = now, updatedAt = now\<rparr>"

text \<open>
  \<open>content.replace(/\s+/g, " ")\<close>: every run of white space becomes one space. A
  white-space character followed by another one is dropped, the last of a run becomes the
  space.
\<close>

function collapse_spaces :: "string \<Rightarrow> string" where
  "collapse_spaces s =
     (if s = [] then []
      else if space_at white_space s = 0 then hd s # collapse_spaces (tl s)
      else
        let rest = drop (space_at white_space s) s in
        if space_at white_space rest = 0 then CHR 0x20 # collapse_spaces rest
        else collapse_spaces rest)"
  by pat_completeness auto
termination
  by (relation "measure length") (auto simp: Let_def intro: diff_less)

declare collapse_spaces.simps [simp del]

definition deriveChatTitle :: "ChatMessage list \<Rightarrow> string" where
  "deriveChatTitle msgs =
     (case find (\<lambda>m. role m = User \<and> js_trim (content m) \<noteq> []) msgs of
        None \<Rightarrow> DEFAULT_CHAT_TITLE
      | Some firstUser \<Rightarrow>
          let oneLine = js_trim (collapse_spaces (content firstUser)) in
          if length oneLine \<le> 42 then oneLine else take 42 oneLine @ ''...'')"

record app_state =
  chats :: "ChatSession list"
  activeChatId :: string

text \<open>
  What \<open>JSON.parse\<close> returns for the stored text, before the cast to an array of sessions
  that the compiler erases: the list of the sessions when the value is an array of session
  objects, and any other value as it is. \<open>JSON.parse\<close> is the parameter \<open>parse\<close>, \<open>None\<close>
  where it throws.
\<close>

datatype stored_value = Sessions "ChatSession list" | Other jsval

text \<open>\<open>parsed.length\<close>\<close>

fun value_length :: "stored_value \<Rightarrow> js_error + jsval" where
  "value_length (Sessions xs) = Inr (JNum (int (length xs)))"
| "value_length (Other v) = js_get v ''length''"

text \<open>
  \<open>x > 0\<close>, which converts \<open>x\<close> to a number: \<open>undefined\<close> is not a number, \<open>null\<close> is 0, a
  truth value is 0 or 1. The conversion of a string, an array or an object belongs to the
  platform and is the parameter \<open>positive\<close>.
\<close>

fun greater_zero :: "(jsval \<Rightarrow> bool) \<Rightarrow> jsval \<Rightarrow> bool" where
  "greater_zero positive JUndefined = False"
| "greater_zero positive JNull = False"
| "greater_zero positive (JBool b) = b"
| "greater_zero positive (JNum n) = (n > 0)"
| "greater_zero positive v = positive v"

text \<open>
  The initializer of \<open>chats\<close>. \<open>raw\<close> is what the storage holds under the key of the session
  list, \<open>None\<close> when there is nothing. Every exception of the \<open>try\<close> block is caught. The
  parsed value becomes the state whenever its \<open>length\<close> is greater than zero, whether or
  not it is a list of sessions.
\<close>

definition init_chats ::
  "(string \<Rightarrow> stored_value option) \<Rightarrow> (jsval \<Rightarrow> bool) \<Rightarrow> string option \<Rightarrow> string \<Rightarrow> string
     \<Rightarrow> stored_value" where
  "init_chats parse positive raw now new_id =
     (case raw of
        None \<Rightarrow> Sessions [createChatSession now new_id]
      | Some r \<Rightarrow>
          if r = [] then Sessions [createChatSession now new_id]
          else (case parse r of
                  None \<Rightarrow> Sessions [createChatSession now new_id]
                | Some parsed \<Rightarrow>
                    (case value_length parsed of
                       Inl e \<Rightarrow> Sessions [createChatSession now new_id]
                     | Inr l \<Rightarrow>
                         if greater_zero positive l then parsed
                         else Sessions [createChatSession now new_id])))"

definition init_activeChatId :: "string option \<Rightarrow> string" where
  "init_activeChatId saved = (case saved of None \<Rightarrow> [] | Some v \<Rightarrow> v)"

text \<open>
  The state of the application after its initializers: on the right when \<open>chats\<close> is a
  list of sessions, on the left the value that is the state otherwise; what the
  application does on such a value is not modelled.
\<close>

definition init_app ::
  "(string \<Rightarrow> stored_value option) \<Rightarrow> (jsval \<Rightarrow> bool) \<Rightarrow> string option \<Rightarrow> string option
     \<Rightarrow> string \<Rightarrow> string \<Rightarrow> jsval + app_state" where
  "init_app parse positive raw saved now new_id =
     (case init_chats parse positive raw now new_id of
        Sessions xs \<Rightarrow> Inr \<lparr>chats = xs, activeChatId = init_activeChatId saved\<rparr>
      | Other v \<Rightarrow> Inl v)"

text \<open>The effect that keeps \<open>activeChatId\<close> at a session of the list.\<close>

definition activeChatEffect :: "app_state \<Rightarrow> app_state" where
  "activeChatEffect s =
     (if activeChatId s = [] \<and> length (chats s) > 0
      then s\<lparr>activeChatId := session_id (chats s ! 0)\<rparr>
      else
        let exists = list_ex (\<lambda>c. session_id c = activeChatId s) (chats s) in
        if \<not> exists \<and> length (chats s) > 0
        then s\<lparr>activeChatId := session_id (chats s ! 0)\<rparr>
        else s)"

definition activeChat :: "app_state \<Rightarrow> ChatSession option" where
  "activeChat s =
     (case find (\<lambda>c. session_id c = activeChatId s) (chats s) of
        Some c \<Rightarrow> Some c
      | None \<Rightarrow> (case chats s of [] \<Rightarrow> None | c # cs \<Rightarrow> Some c))"

definition createNewChat :: "string \<Rightarrow> string \<Rightarrow> app_state \<Rightarrow> app_state" where
  "createNewChat now new_id s =
     (let next = createChatSession now new_id in
      \<lparr>chats = next # chats s, activeChatId = session_id next\<rparr>)"

definition removeChat :: "string \<Rightarrow> string \<Rightarrow> string \<Rightarrow> app_state \<Rightarrow> app_state" where
  "removeChat chat_id now new_id s =
     (let prev = chats s in
      if length prev \<le> 1 then
        let fresh = createChatSession now new_id in
        \<lparr>chats = [fresh], activeChatId = session_id fresh\<rparr>
      else
        let filtered = filter (\<lambda>c. session_id c \<noteq> chat_id) prev in
        if activeChatId s = chat_id \<and> length filtered > 0
        then \<lparr>chats = filtered, activeChatId = session_id (filtered ! 0)\<rparr>
        else \<lparr>chats = filtered, activeChatId = activeChatId s\<rparr>)"

definition updateActiveChatMessages ::
  "(ChatMessage list \<Rightarrow> ChatMessage list) \<Rightarrow> string \<Rightarrow> app_state \<Rightarrow> app_state" where
  "updateActiveChatMessages updater now s =
     (case activeChat s of
        None \<Rightarrow> s
      | Some active \<Rightarrow>
          s\<lparr>chats :=
              map (\<lambda>chat.
                     if session_id chat \<noteq> session_id active then chat
                     else
                       let nextMessages = updater (messages chat) in
                       chat\<lparr>messages := nextMessages, title := deriveChatTitle nextMessages,
                            updatedAt := now\<rparr>)
                  (chats s)\<rparr>)"


text \<open>A click on a session of the sidebar: \<open>setActiveChatId(chat.id)\<close>.\<close>

definition selectChat :: "string \<Rightarrow> app_state \<Rightarrow> app_state" where
  "selectChat chat_id s = s\<lparr>activeChatId := chat_id\<rparr>"

text \<open>
  The states the application reaches. It starts on a storage that holds nothing, the empty
  text, a text that does not parse or the empty list, or it starts again on the text that
  the effect \<open>localStorage.setItem(CHAT_STORAGE_KEY, JSON.stringify(chats))\<close> wrote in a
  state reached before, which \<open>JSON.parse\<close> reads back as the list of that state. A new
  session gets an identifier that no session of the list has, as \<open>crypto.randomUUID\<close>
  gives. Nothing but the application writes the storage.
\<close>

inductive reachable ::
  "(string \<Rightarrow> stored_value option) \<Rightarrow> (jsval \<Rightarrow> bool) \<Rightarrow> app_state \<Rightarrow> bool"
  for parse :: "string \<Rightarrow> stored_value option" and positive :: "jsval \<Rightarrow> bool" where
  first_start:
    "raw = None \<or> raw = Some []
       \<or> (\<exists>r. raw = Some r \<and> (parse r = None \<or> parse r = Some (Sessions []))) \<Longrightarrow>
     init_app parse positive raw saved now new_id = Inr s \<Longrightarrow>
     reachable parse positive s"
| restart:
    "reachable parse positive s0 \<Longrightarrow>
     parse r = Some (Sessions (chats s0)) \<Longrightarrow>
     init_app parse positive (Some r) saved now new_id = Inr s \<Longrightarrow>
     reachable parse positive s"
| create:
    "reachable parse positive s \<Longrightarrow>
     new_id \<notin> session_id ` set (chats s) \<Longrightarrow>
     reachable parse positive (createNewChat now new_id s)"
| remove:
    "reachable parse positive s \<Longrightarrow>
     reachable parse positive (removeChat chat_id now new_id s)"
| update:
    "reachable parse positive s \<Longrightarrow>
     reachable parse positive (updateActiveChatMessages updater now s)"
| effect:
    "reachable parse positive s \<Longrightarrow>
     reachable parse positive (activeChatEffect s)"
| select:
    "reachable parse positive s \<Longrightarrow>
     reachable parse positive (selectChat chat_id s)"


section \<open>The upload handler\<close>

datatype UploadStatus = Idle | Uploading | Success | Failed

text \<open>
  The state of the upload component, with the files handed to \<open>uploadFile\<close> (the network
  call) and the number of calls of \<open>onUploadComplete\<close>.
\<close>

record upload_state =
  status :: UploadStatus
  statusMessage :: string
  uploaded :: "string list"
  completions :: nat

definition allowedExtensions :: "string list" where
  "allowedExtensions = [''.pdf'', ''.docx'', ''.doc'', ''.txt'']"

text \<open>\<open>toLowerCase\<close> on the letters of ASCII; other characters are kept.\<close>

definition lower_char :: "char \<Rightarrow> char" where
  "lower_char c =
     (let n = (of_char c :: nat) in if 65 \<le> n \<and> n \<le> 90 then char_of (n + 32) else c)"

definition toLowerCase :: "string \<Rightarrow> string" where
  "toLowerCase s = map lower_char s"

definition unsupported_label :: string where
  "unsupported_label =
     [CHR 0xD0, CHR 0x9D, CHR 0xD0, CHR 0xB5, CHR 0xD0, CHR 0xBF, CHR 0xD0, CHR 0xBE,
      CHR 0xD0, CHR 0xB4, CHR 0xD0, CHR 0xB4, CHR 0xD0, CHR 0xB5, CHR 0xD1, CHR 0x80,
      CHR 0xD0, CHR 0xB6, CHR 0xD0, CHR 0xB8, CHR 0xD0, CHR 0xB2, CHR 0xD0, CHR 0xB0,
      CHR 0xD0, CHR 0xB5, CHR 0xD0, CHR 0xBC, CHR 0xD1, CHR 0x8B, CHR 0xD0, CHR 0xB9,
      CHR 0x20, CHR 0xD1, CHR 0x84, CHR 0xD0, CHR 0xBE, CHR 0xD1, CHR 0x80, CHR 0xD0,
      CHR 0xBC, CHR 0xD0, CHR 0xB0, CHR 0xD1, CHR 0x82, CHR 0x3A, CHR 0x20]"

definition allowed_label :: string where
  "allowed_label =
     [CHR 0x2E, CHR 0x20, CHR 0xD0, CHR 0x94, CHR 0xD0, CHR 0xBE, CHR 0xD0, CHR 0xBF,
      CHR 0xD1, CHR 0x83, CHR 0xD1, CHR 0x81, CHR 0xD1, CHR 0x82, CHR 0xD0, CHR 0xB8,
      CHR 0xD0, CHR 0xBC, CHR 0xD1, CHR 0x8B, CHR 0xD0, CHR 0xB5, CHR 0x3A, CHR 0x20,
      CHR 0x50, CHR 0x44, CHR 0x46, CHR 0x2C, CHR 0x20, CHR 0x44, CHR 0x4F, CHR 0x43,
      CHR 0x58, CHR 0x2C, CHR 0x20, CHR 0x44, CHR 0x4F, CHR 0x43, CHR 0x2C, CHR 0x20,
      CHR 0x54, CHR 0x58, CHR 0x54]"

definition loading_label :: string where
  "loading_label =
     [CHR 0xD0, CHR 0x97, CHR 0xD0, CHR 0xB0, CHR 0xD0, CHR 0xB3, CHR 0xD1, CHR 0x80,
      CHR 0xD1, CHR 0x83, CHR 0xD0, CHR 0xB7, CHR 0xD0, CHR 0xBA, CHR 0xD0, CHR 0xB0,
      CHR 0x3A, CHR 0x20]"

text \<open>\<open>"." + file.name.split(".").pop()?.toLowerCase()\<close>\<close>

definition file_ext :: "string \<Rightarrow> string" where
  "file_ext name =
     ''.'' @ (case pop (split_char (CHR ''.'') name) of
               None \<Rightarrow> ''undefined''
             | Some seg \<Rightarrow> toLowerCase seg)"

text \<open>
  \<open>handleUpload\<close> on a file of the given name. \<open>response\<close> is the outcome of \<open>uploadFile\<close>
  if it is called: the message of the result, or on the left the text of the error thrown.
  The reset of the status three seconds after a success is a later event and not part of
  the handler.
\<close>

definition handleUpload :: "string \<Rightarrow> string + string \<Rightarrow> upload_state \<Rightarrow> upload_state" where
  "handleUpload name response s =
     (let ext = file_ext name in
      if ext \<notin> set allowedExtensions
      then s\<lparr>status := Failed, statusMessage := unsupported_label @ ext @ allowed_label\<rparr>
      else
        let s1 = s\<lparr>status := Uploading, statusMessage := loading_label @ name @ ''...''\<rparr>;
            s2 = s1\<lparr>uploaded := uploaded s1 @ [name]\<rparr>
        in case response of
             Inr message \<Rightarrow>
               s2\<lparr>status := Success, statusMessage := message, completions := completions s2 + 1\<rparr>
           | Inl error \<Rightarrow> s2\<lparr>status := Failed, statusMessage := error\<rparr>)"

text \<open>
  The extension of a file name as the format notice and the \<open>accept\<close> attribute of the file
  input understand it: what follows the last dot of a name that has one.
\<close>

definition extension :: "string \<Rightarrow> string option" where
  "extension name =
     (if CHR ''.'' \<in> set name then pop (split_char (CHR ''.'') name) else None)"

definition allowed_extension :: "string \<Rightarrow> bool" where
  "allowed_extension name =
     (case extension name of
        None \<Rightarrow> False
      | Some e \<Rightarrow> toLowerCase e \<in> set [''pdf'', ''docx'', ''doc'', ''txt''])"


section \<open>Properties of the decoder\<close>

lemma split_nn_nonempty: "split_nn s \<noteq> []"
  by (induction s rule: split_nn.induct) (auto split: list.splits elim: cons_first.elims)


lemma split_single: "\<not> has_delim s \<Longrightarrow> split_nn s = [s]"
  by (induction s rule: split_nn.induct) auto

lemma split_nn_only: "split_nn x = [s] \<Longrightarrow> s = x"
proof (induction x arbitrary: s rule: split_nn.induct)
  case (3 a b rest)
  have ne: "split_nn (b # rest) \<noteq> []" by (rule split_nn_nonempty)
  from 3(3) have nd: "\<not> (a = LF \<and> b = LF)"
    using split_nn_nonempty[of rest] by (auto split: if_splits)
  with 3(3) ne have "split_nn (b # rest) = [tl s]" "hd s = a" "s \<noteq> []"
    by (cases "split_nn (b # rest)"; auto)+
  with 3(2)[OF nd] show ?case by (cases s) auto
qed auto

lemma pop_split: "pop (split_nn s) = Some (last (split_nn s))"
  by (simp add: pop_def split_nn_nonempty last_conv_nth)

lemma pop_rest_butlast: "pop_rest xs = butlast xs"
  by (simp add: pop_rest_def butlast_conv_take)

lemma split_nn_append:
  "split_nn (b @ c) = butlast (split_nn b) @ split_nn (last (split_nn b) @ c)"
proof (induction b rule: split_nn.induct)
  case 1
  then show ?case by simp
next
  case (2 x)
  then show ?case by simp
next
  case (3 a b rest)
  show ?case
  proof (cases "a = LF \<and> b = LF")
    case True
    from 3(1)[OF True] True show ?thesis by (simp add: split_nn_nonempty)
  next
    case False
    note IH = 3(2)[OF False]
    obtain s ss where sp: "split_nn (b # rest) = s # ss"
      using split_nn_nonempty[of "b # rest"] by (cases "split_nn (b # rest)") auto
    have unf: "split_nn ((a # b # rest) @ c) = cons_first a (split_nn ((b # rest) @ c))"
      using False by auto
    have unf2: "split_nn (a # b # rest) = (a # s) # ss"
      using False sp by auto
    show ?thesis
    proof (cases ss)
      case Nil
      with sp have s: "s = b # rest" using split_nn_only by blast
      have "split_nn ((a # s) @ c) = cons_first a (split_nn (s @ c))"
        using False s by auto
      with unf unf2 Nil s show ?thesis by simp
    next
      case (Cons t ts)
      with IH sp unf unf2 show ?thesis by simp
    qed
  qed
qed

lemma join_cons_first: "xs \<noteq> [] \<Longrightarrow> join_nn (cons_first a xs) = a # join_nn xs"
  by (cases xs rule: join_nn.cases) auto

lemma join_nn_Cons: "xs \<noteq> [] \<Longrightarrow> join_nn (s # xs) = s @ [LF, LF] @ join_nn xs"
  by (cases xs) auto

lemma join_split: "join_nn (split_nn s) = s"
  by (induction s rule: split_nn.induct)
     (auto simp: join_cons_first join_nn_Cons split_nn_nonempty)

lemma split_delim_end: "\<not> has_delim (f @ [LF]) \<Longrightarrow> split_nn (f @ [LF, LF]) = [f, []]"
  by (induction f rule: split_nn.induct) auto

lemma last_split_no_delim: "\<not> has_delim (last (split_nn s))"
proof (induction s rule: split_nn.induct)
  case (3 a b rest)
  show ?case
  proof (cases "a = LF \<and> b = LF")
    case True
    with 3(1) show ?thesis by (simp add: split_nn_nonempty)
  next
    case False
    note IH = 3(2)[OF False]
    obtain s ss where sp: "split_nn (b # rest) = s # ss"
      using split_nn_nonempty[of "b # rest"] by (cases "split_nn (b # rest)") auto
    show ?thesis
    proof (cases ss)
      case Nil
      with sp have "s = b # rest" using split_nn_only by blast
      with IH sp Nil False show ?thesis by auto
    next
      case (Cons t ts)
      with IH sp False show ?thesis by auto
    qed
  qed
qed auto

lemma has_delim_append: "has_delim a \<Longrightarrow> has_delim (a @ b)"
  by (induction a rule: has_delim.induct) auto

lemma read_chunk_eq:
  "read_chunk parse b c =
     (process_lines parse (butlast (split_nn (b @ c))), last (split_nn (b @ c)))"
  by (simp add: read_chunk_def Let_def pop_split pop_rest_butlast)

lemma process_lines_append:
  "process_lines parse (xs @ ys) = process_lines parse xs @ process_lines parse ys"
  by (simp add: process_lines_def)

lemma read_loop_whole:
  "\<not> has_delim b \<Longrightarrow>
     read_loop parse b cs = process_lines parse (butlast (split_nn (b @ concat cs)))"
proof (induction cs arbitrary: b)
  case Nil
  then show ?case by (simp add: split_single process_lines_def)
next
  case (Cons c cs)
  let ?l = "last (split_nn (b @ c))"
  have "read_loop parse b (c # cs) =
          process_lines parse (butlast (split_nn (b @ c))) @ read_loop parse ?l cs"
    by (simp add: read_chunk_eq)
  also have "read_loop parse ?l cs = process_lines parse (butlast (split_nn (?l @ concat cs)))"
    by (rule Cons.IH) (rule last_split_no_delim)
  also have "process_lines parse (butlast (split_nn (b @ c))) @ \<dots> =
          process_lines parse (butlast (split_nn ((b @ c) @ concat cs)))"
    unfolding split_nn_append [of "b @ c" "concat cs"]
    by (simp add: butlast_append split_nn_nonempty process_lines_append)
  finally show ?case by simp
qed

lemma read_buffer_whole:
  "\<not> has_delim b \<Longrightarrow> read_buffer b cs = last (split_nn (b @ concat cs))"
proof (induction cs arbitrary: b)
  case Nil
  then show ?case by (simp add: split_single)
next
  case (Cons c cs)
  have "read_buffer b (c # cs) = read_buffer (last (split_nn (b @ c))) cs"
    by (simp add: pop_split)
  also have "\<dots> = last (split_nn (last (split_nn (b @ c)) @ concat cs))"
    by (rule Cons.IH) (rule last_split_no_delim)
  also have "\<dots> = last (split_nn ((b @ c) @ concat cs))"
    unfolding split_nn_append [of "b @ c" "concat cs"]
    by (simp add: split_nn_nonempty)
  finally show ?case by simp
qed

lemma split_frame_first:
  "\<not> has_delim (s @ [LF]) \<Longrightarrow> split_nn (s @ LF # LF # r) = s # split_nn r"
  by (induction s rule: split_nn.induct) auto

lemma split_join:
  "\<forall>s\<in>set segs. \<not> has_delim (s @ [LF]) \<Longrightarrow> \<not> has_delim rest \<Longrightarrow>
     split_nn (join_nn (segs @ [rest])) = segs @ [rest]"
proof (induction segs)
  case Nil
  then show ?case by (simp add: split_single)
next
  case (Cons s segs)
  have "join_nn ((s # segs) @ [rest]) = s @ LF # LF # join_nn (segs @ [rest])"
    by (simp add: join_nn_Cons)
  with Cons show ?case by (simp add: split_frame_first)
qed

text \<open>
  Claim C1. Splitting the same text into chunks at other places changes neither the
  callbacks the read loop invokes, nor their order, nor the buffer that is left: both are
  those of the text read in one piece, namely the segments before the last delimiter, in
  order, and the segment after it. A frame cut by a chunk boundary invokes nothing while
  its delimiter is incomplete, and its callback with the chunk that completes the delimiter.
\<close>

theorem decoder_chunk_boundary_independence:
  "concat cs = concat ds \<Longrightarrow>
     read_loop parse [] cs = read_loop parse [] ds
   \<and> read_buffer [] cs = read_buffer [] ds
   \<and> read_loop parse [] cs = process_lines parse (butlast (split_nn (concat cs)))
   \<and> read_buffer [] cs = last (split_nn (concat cs))
   \<and> (\<not> has_delim (f1 @ f2 @ [LF]) \<longrightarrow>
        read_chunk parse [] f1 = ([], f1)
      \<and> read_chunk parse f1 (f2 @ [LF, LF]) = (process_line parse (f1 @ f2), []))"
proof -
  assume eq: "concat cs = concat ds"
  have nd: "\<not> has_delim []" by simp
  have a: "read_loop parse [] cs = process_lines parse (butlast (split_nn (concat cs)))"
    using read_loop_whole [OF nd, of parse cs] by simp
  have b: "read_loop parse [] ds = process_lines parse (butlast (split_nn (concat ds)))"
    using read_loop_whole [OF nd, of parse ds] by simp
  have c: "read_buffer [] cs = last (split_nn (concat cs))"
    using read_buffer_whole [OF nd, of cs] by simp
  have d: "read_buffer [] ds = last (split_nn (concat ds))"
    using read_buffer_whole [OF nd, of ds] by simp
  have e: "read_chunk parse [] f1 = ([], f1)
      \<and> read_chunk parse f1 (f2 @ [LF, LF]) = (process_line parse (f1 @ f2), [])"
    if h: "\<not> has_delim (f1 @ f2 @ [LF])"
  proof -
    have "\<not> has_delim f1" using h has_delim_append by blast
    then have 1: "split_nn f1 = [f1]" by (rule split_single)
    have 2: "split_nn ((f1 @ f2) @ [LF, LF]) = [f1 @ f2, []]"
      using h by (intro split_delim_end) simp
    show ?thesis using 1 2 by (simp add: read_chunk_eq process_lines_def)
  qed
  show ?thesis using a b c d e eq by simp
qed



theorem decoder_chunk_boundary_independence_witness:
  "concat [''data: {\"type\":\"token\",\"content\":\"Hel'', ''lo\"}'' @ [LF, LF]]
     = concat [''data: {\"type\":\"token\",\"content\":\"Hello\"}'' @ [LF, LF]]
   \<and> read_loop parse_table []
        [''data: {\"type\":\"token\",\"content\":\"Hel'', ''lo\"}'' @ [LF, LF]]
       = [OnToken (JStr ''Hello'')]
   \<and> read_loop parse_table [] [''data: {\"type\":\"token\",\"content\":\"Hello\"}'' @ [LF, LF]]
       = [OnToken (JStr ''Hello'')]
   \<and> \<not> has_delim (''data: {\"type\":\"token\",\"content\":\"Hel'' @ ''lo\"}'' @ [LF])
   \<and> read_chunk parse_table [] ''data: {\"type\":\"token\",\"content\":\"Hel''
       = ([], ''data: {\"type\":\"token\",\"content\":\"Hel'')
   \<and> read_chunk parse_table ''data: {\"type\":\"token\",\"content\":\"Hel''
        (''lo\"}'' @ [LF, LF]) = ([OnToken (JStr ''Hello'')], [])"
proof -
  let ?c1 = "''data: {\"type\":\"token\",\"content\":\"Hel''"
  let ?c2 = "''lo\"}''"
  let ?w = "''data: {\"type\":\"token\",\"content\":\"Hello\"}''"
  have h1: "concat [?c1, ?c2 @ [LF, LF]] = concat [?w @ [LF, LF]]" by simp
  have h2: "\<not> has_delim (?c1 @ ?c2 @ [LF])" by code_simp
  have v: "process_line parse_table (?c1 @ ?c2) = [OnToken (JStr ''Hello'')]" by code_simp
  have w: "read_loop parse_table [] [?w @ [LF, LF]] = [OnToken (JStr ''Hello'')]" by code_simp
  note T = decoder_chunk_boundary_independence [OF h1, of parse_table ?c1 ?c2]
  from T have a: "read_loop parse_table [] [?c1, ?c2 @ [LF, LF]]
                    = read_loop parse_table [] [?w @ [LF, LF]]"
    by (rule conjunct1)
  from T h2 have b: "read_chunk parse_table [] ?c1 = ([], ?c1)"
    and c: "read_chunk parse_table ?c1 (?c2 @ [LF, LF])
              = (process_line parse_table (?c1 @ ?c2), [])"
    by blast+
  show ?thesis
    by (intro conjI h1 a [unfolded w] w h2 b c [unfolded v])
qed


text \<open>
  \<open>trim\<close> strips the white space outside ASCII as well: each white-space character alone
  trims to the empty text, and a frame with a no-break space before \<open>data: \<close> and a
  paragraph separator at its end is decoded.
\<close>

lemma trim_white_space: "list_all (\<lambda>w. js_trim w = []) white_space"
  by code_simp

lemma trim_inner_space:
  "js_trim ([CHR 0xC2, CHR 0xA0, CHR 0x20] @ ''a b'' @ [CHR 0xE2, CHR 0x80, CHR 0xA8, LF]) = ''a b''"
  by code_simp

lemma process_line_white_space:
  "process_line parse_table
     ([CHR 0xC2, CHR 0xA0] @ ''data: {\"type\":\"done\"}'' @ [CHR 0xE2, CHR 0x80, CHR 0xA9])
     = [OnDone]"
  by code_simp

lemma dispatch_unrecognized:
  assumes "js_get event ''type'' \<noteq> Inr (JStr ''token'')"
    and "js_get event ''type'' \<noteq> Inr (JStr ''sources'')"
    and "js_get event ''type'' \<noteq> Inr (JStr ''done'')"
    and "js_get event ''type'' \<noteq> Inr (JStr ''error'')"
  shows "(case dispatch event of Inl e \<Rightarrow> [] | Inr cbs \<Rightarrow> cbs) = []"
proof (cases "js_get event ''type''")
  case (Inl e)
  then show ?thesis by (simp add: dispatch_def)
next
  case (Inr ty)
  with assms show ?thesis by (simp add: dispatch_def)
qed

text \<open>
  Claim C4. A segment that, trimmed, does not start with \<open>data: \<close>, or whose remainder
  \<open>JSON.parse\<close> rejects, or whose parsed \<open>type\<close> is none of \<open>token\<close>, \<open>sources\<close>, \<open>done\<close>,
  \<open>error\<close> (also when reading \<open>type\<close> throws), invokes no callback; the loop goes on, and
  the segments before and after it invoke what they invoke without it, in the loop over
  the segments and in the read loop over any chunking of a stream that contains it.
\<close>

theorem malformed_frame_dropped:
  "\<not> startsWith (js_trim f) ''data: ''
   \<or> parse (drop 6 (js_trim f)) = None
   \<or> (\<exists>event. parse (drop 6 (js_trim f)) = Some event
         \<and> js_get event ''type'' \<noteq> Inr (JStr ''token'')
         \<and> js_get event ''type'' \<noteq> Inr (JStr ''sources'')
         \<and> js_get event ''type'' \<noteq> Inr (JStr ''done'')
         \<and> js_get event ''type'' \<noteq> Inr (JStr ''error''))
   \<Longrightarrow>
     process_line parse f = []
   \<and> process_lines parse (pre @ f # post) = process_lines parse pre @ process_lines parse post
   \<and> ((\<forall>s\<in>set (pre @ f # post). \<not> has_delim (s @ [LF])) \<and> \<not> has_delim rest
        \<and> concat chunks = join_nn (pre @ f # post @ [rest])
       \<longrightarrow> read_loop parse [] chunks = process_lines parse pre @ process_lines parse post)"
proof -
  assume bad: "\<not> startsWith (js_trim f) ''data: ''
   \<or> parse (drop 6 (js_trim f)) = None
   \<or> (\<exists>event. parse (drop 6 (js_trim f)) = Some event
         \<and> js_get event ''type'' \<noteq> Inr (JStr ''token'')
         \<and> js_get event ''type'' \<noteq> Inr (JStr ''sources'')
         \<and> js_get event ''type'' \<noteq> Inr (JStr ''done'')
         \<and> js_get event ''type'' \<noteq> Inr (JStr ''error''))"
  have drop: "process_line parse f = []"
  proof (cases "startsWith (js_trim f) ''data: ''")
    case False
    then show ?thesis by (simp add: process_line_def)
  next
    case True
    show ?thesis
    proof (cases "parse (drop 6 (js_trim f))")
      case None
      with True show ?thesis by (simp add: process_line_def try_frame_def)
    next
      case (Some event)
      with bad True have "(case dispatch event of Inl e \<Rightarrow> [] | Inr cbs \<Rightarrow> cbs) = []"
        by (intro dispatch_unrecognized) auto
      with True Some show ?thesis by (simp add: process_line_def try_frame_def)
    qed
  qed
  have lines: "process_lines parse (pre @ f # post)
                 = process_lines parse pre @ process_lines parse post"
    using drop by (simp add: process_lines_def)
  have stream: "read_loop parse [] chunks = process_lines parse pre @ process_lines parse post"
    if frames: "\<forall>s\<in>set (pre @ f # post). \<not> has_delim (s @ [LF])"
      and rest: "\<not> has_delim rest"
      and chunks: "concat chunks = join_nn (pre @ f # post @ [rest])"
  proof -
    have "split_nn (join_nn ((pre @ f # post) @ [rest])) = (pre @ f # post) @ [rest]"
      using frames rest by (rule split_join)
    then have "butlast (split_nn (concat chunks)) = pre @ f # post"
      using chunks by (simp add: butlast_append)
    moreover have "read_loop parse [] chunks
                     = process_lines parse (butlast (split_nn ([] @ concat chunks)))"
      by (rule read_loop_whole) simp
    ultimately show ?thesis using lines by simp
  qed
  show ?thesis using drop lines stream by blast
qed

theorem malformed_frame_dropped_witness:
  "(\<exists>event. parse_table (drop 6 (js_trim ''data: {\"type\":\"ping\"}'')) = Some event
       \<and> js_get event ''type'' \<noteq> Inr (JStr ''token'')
       \<and> js_get event ''type'' \<noteq> Inr (JStr ''sources'')
       \<and> js_get event ''type'' \<noteq> Inr (JStr ''done'')
       \<and> js_get event ''type'' \<noteq> Inr (JStr ''error''))
   \<and> process_line parse_table ''data: {\"type\":\"ping\"}'' = []
   \<and> list_all (\<lambda>s. \<not> has_delim (s @ [LF]))
        ([''data: {\"type\":\"done\"}''] @ ''data: {\"type\":\"ping\"}''
           # [''data: {\"type\":\"token\",\"content\":\"Hello\"}''])
   \<and> read_loop parse_table []
         [''data: {\"type\":\"done\"}'' @ [LF],
          [LF] @ ''data: {\"type\":\"ping\"}'' @ [LF, LF]
            @ ''data: {\"type\":\"token\",\"content\":\"Hello\"}'' @ [LF, LF]]
       = [OnDone, OnToken (JStr ''Hello'')]
   \<and> \<not> startsWith (js_trim '': heartbeat'') ''data: ''
   \<and> process_line parse_table '': heartbeat'' = []
   \<and> parse_table (drop 6 (js_trim ''data: {oops'')) = None
   \<and> process_line parse_table ''data: {oops'' = []
   \<and> parse_table (drop 6 (js_trim ''data: null'')) = Some JNull
   \<and> js_get JNull ''type'' = Inl TypeError
   \<and> process_line parse_table ''data: null'' = []"
proof -
  let ?d = "''data: {\"type\":\"done\"}''"
  let ?f = "''data: {\"type\":\"ping\"}''"
  let ?t = "''data: {\"type\":\"token\",\"content\":\"Hello\"}''"
  let ?chunks = "[?d @ [LF], [LF] @ ?f @ [LF, LF] @ ?t @ [LF, LF]]"
  have p: "parse_table (drop 6 (js_trim ?f)) = Some (JObj [(''type'', JStr ''ping'')])"
    by code_simp
  have g: "js_get (JObj [(''type'', JStr ''ping'')]) ''type'' \<noteq> Inr (JStr ''token'')"
      "js_get (JObj [(''type'', JStr ''ping'')]) ''type'' \<noteq> Inr (JStr ''sources'')"
      "js_get (JObj [(''type'', JStr ''ping'')]) ''type'' \<noteq> Inr (JStr ''done'')"
      "js_get (JObj [(''type'', JStr ''ping'')]) ''type'' \<noteq> Inr (JStr ''error'')"
    by code_simp+
  have h: "\<exists>event. parse_table (drop 6 (js_trim ?f)) = Some event
       \<and> js_get event ''type'' \<noteq> Inr (JStr ''token'')
       \<and> js_get event ''type'' \<noteq> Inr (JStr ''sources'')
       \<and> js_get event ''type'' \<noteq> Inr (JStr ''done'')
       \<and> js_get event ''type'' \<noteq> Inr (JStr ''error'')"
    using p g by blast
  have fr: "\<forall>s\<in>set ([?d] @ ?f # [?t]). \<not> has_delim (s @ [LF])" by code_simp
  have r: "\<not> has_delim []" by simp
  have c: "concat ?chunks = join_nn ([?d] @ ?f # [?t] @ [[]])" by code_simp
  have v: "process_lines parse_table [?d] @ process_lines parse_table [?t]
             = [OnDone, OnToken (JStr ''Hello'')]" by code_simp
  have h1: "\<not> startsWith (js_trim '': heartbeat'') ''data: ''" by code_simp
  have h2: "parse_table (drop 6 (js_trim ''data: {oops'')) = None" by code_simp
  have h3: "parse_table (drop 6 (js_trim ''data: null'')) = Some JNull" by code_simp
  have g3: "js_get JNull ''type'' = Inl TypeError" by simp
  have T: "process_line parse_table ?f = []
      \<and> read_loop parse_table [] ?chunks
           = process_lines parse_table [?d] @ process_lines parse_table [?t]"
    using malformed_frame_dropped [of ?f parse_table "[?d]" "[?t]" "[]" ?chunks] h fr r c
    by blast
  have T1: "process_line parse_table '': heartbeat'' = []"
    using malformed_frame_dropped [of "'': heartbeat''" parse_table] h1 by blast
  have T2: "process_line parse_table ''data: {oops'' = []"
    using malformed_frame_dropped [of "''data: {oops''" parse_table] h2 by blast
  have T3: "process_line parse_table ''data: null'' = []"
    using malformed_frame_dropped [of "''data: null''" parse_table] h3 g3 by auto
  have fr': "list_all (\<lambda>s. \<not> has_delim (s @ [LF])) ([?d] @ ?f # [?t])" by code_simp
  show ?thesis
    by (intro conjI h T [THEN conjunct1] fr' T [THEN conjunct2, unfolded v] h1 T1 h2 T2 h3 g3 T3)
qed

section \<open>Properties of the message updaters and of the chat component\<close>

lemma pop_Nil: "pop [] = None"
  by (simp add: pop_def)

lemma pop_snoc: "pop (xs @ [x]) = Some x"
  by (simp add: pop_def)

lemma pop_nonempty: "xs \<noteq> [] \<Longrightarrow> pop xs = Some (last xs)"
  by (cases xs rule: rev_cases) (simp_all add: pop_snoc)

lemma append_chunk_Nil: "append_chunk chunk [] = []"
  by (simp add: append_chunk_def pop_Nil)

lemma append_chunk_snoc:
  "append_chunk chunk (xs @ [m]) =
     xs @ [if role m = Assistant then m\<lparr>content := content m @ chunk\<rparr> else m]"
  by (simp add: append_chunk_def pop_snoc)

lemma replace_sources_Nil: "replace_sources srcs [] = []"
  by (simp add: replace_sources_def pop_Nil)

lemma replace_sources_snoc:
  "replace_sources srcs (xs @ [m]) =
     xs @ [if role m = Assistant then m\<lparr>sources := Some srcs\<rparr> else m]"
  by (simp add: replace_sources_def pop_snoc)

lemma overwrite_error_Nil: "overwrite_error error []  = []"
  by (simp add: overwrite_error_def pop_Nil)

lemma overwrite_error_snoc:
  "overwrite_error error (xs @ [m]) =
     xs @ [if role m = Assistant then m\<lparr>content := error_notice error\<rparr> else m]"
  by (simp add: overwrite_error_def pop_snoc)

lemmas updater_simps =
  append_chunk_Nil append_chunk_snoc replace_sources_Nil replace_sources_snoc
  overwrite_error_Nil overwrite_error_snoc

text \<open>
  Claim C9. Each of the three updaters of the streaming callbacks (appending a chunk,
  replacing the sources, overwriting with the error notice) returns a list of the same
  length whose elements before the last are those of the given list. When the last element
  is an assistant message it is replaced by itself with only \<open>content\<close> changed (append,
  error notice) or only \<open>sources\<close> changed (sources); when the list is empty or its last
  element is not an assistant message, the list is returned as it is.
\<close>

theorem updaters_frame:
  "length (append_chunk chunk prev) = length prev
   \<and> length (replace_sources srcs prev) = length prev
   \<and> length (overwrite_error error prev) = length prev
   \<and> butlast (append_chunk chunk prev) = butlast prev
   \<and> butlast (replace_sources srcs prev) = butlast prev
   \<and> butlast (overwrite_error error prev) = butlast prev
   \<and> (prev \<noteq> [] \<and> role (last prev) = Assistant \<longrightarrow>
        last (append_chunk chunk prev) = (last prev)\<lparr>content := content (last prev) @ chunk\<rparr>
      \<and> last (replace_sources srcs prev) = (last prev)\<lparr>sources := Some srcs\<rparr>
      \<and> last (overwrite_error error prev) = (last prev)\<lparr>content := error_notice error\<rparr>)
   \<and> (prev = [] \<or> role (last prev) \<noteq> Assistant \<longrightarrow>
        append_chunk chunk prev = prev
      \<and> replace_sources srcs prev = prev
      \<and> overwrite_error error prev = prev)"
  by (cases prev rule: rev_cases) (simp_all add: updater_simps)

theorem updaters_frame_witness:
  "[\<lparr>role = User, content = ''q'', sources = None\<rparr>,
    \<lparr>role = Assistant, content = ''He'', sources = Some []\<rparr>] \<noteq> []
   \<and> role (last [\<lparr>role = User, content = ''q'', sources = None\<rparr>,
                  \<lparr>role = Assistant, content = ''He'', sources = Some []\<rparr>]) = Assistant
   \<and> last (append_chunk ''l'' [\<lparr>role = User, content = ''q'', sources = None\<rparr>,
                  \<lparr>role = Assistant, content = ''He'', sources = Some []\<rparr>])
       = \<lparr>role = Assistant, content = ''Hel'', sources = Some []\<rparr>
   \<and> role (last [\<lparr>role = User, content = ''q'', sources = None\<rparr>]) \<noteq> Assistant
   \<and> overwrite_error ''boom'' [\<lparr>role = User, content = ''q'', sources = None\<rparr>]
       = [\<lparr>role = User, content = ''q'', sources = None\<rparr>]
   \<and> append_chunk ''l'' [] = []"
  using updaters_frame [of "''l''" "[\<lparr>role = User, content = ''q'', sources = None\<rparr>,
                  \<lparr>role = Assistant, content = ''He'', sources = Some []\<rparr>]"]
    updaters_frame [of _ "[\<lparr>role = User, content = ''q'', sources = None\<rparr>]" _ "''boom''"]
    updaters_frame [of "''l''" "[]"]
  by simp

text \<open>
  Claim C7. A submission whose input is empty after trimming, or made while
  \<open>isLoading\<close> holds, leaves the whole state as it is: no message is appended to any
  session and no call of \<open>streamChat\<close> is made.
\<close>

theorem submit_rejected:
  "js_trim (input s) = [] \<or> isLoading s \<Longrightarrow>
     handleSubmit s = s
   \<and> step Submit s = s
   \<and> store (step Submit s) = store s
   \<and> requests (step Submit s) = requests s"
  by (auto simp: handleSubmit_def Let_def)

lemmas chat_defs =
  onToken_def onSources_def onDone_def onError_def tick_def startTypewriter_def
  stopTypingTimer_def finalizeIfStreamFinished_def appendAssistantChunk_def
  onMessagesChange_def handleSubmit_def abort_current_def chatIdEffect_def switchChat_def
  unmount_def CHARS_PER_TICK_def

lemma aborted_step: "c \<in> aborted s \<Longrightarrow> c \<in> aborted (step e s)"
  by (cases e) (auto simp: chat_defs Let_def split: option.splits)

lemma aborted_run: "c \<in> aborted s \<Longrightarrow> c \<in> aborted (run evs s)"
  unfolding run_def by (induction evs arbitrary: s) (auto simp: aborted_step)

lemma callback_aborted: "c \<in> aborted s \<Longrightarrow> callback_of c e \<Longrightarrow> step e s = s"
  by (cases e) (auto simp: onToken_def onSources_def onDone_def onError_def)

lemma run_Cons: "run (e # evs) s = run evs (step e s)"
  by (simp add: run_def)

lemma run_Nil: "run [] s = s"
  by (simp add: run_def)

lemma run_append: "run (xs @ ys) s = run ys (run xs s)"
  by (simp add: run_def)

lemma run_filter_aborted:
  "c \<in> aborted s \<Longrightarrow> run evs s = run (filter (\<lambda>e. \<not> callback_of c e) evs) s"
proof (induction evs arbitrary: s)
  case Nil
  then show ?case by simp
next
  case (Cons e evs)
  show ?case
  proof (cases "callback_of c e")
    case True
    with Cons.prems have "step e s = s" by (simp add: callback_aborted)
    with True Cons show ?thesis by (simp add: run_Cons)
  next
    case False
    from Cons.prems have "c \<in> aborted (step e s)" by (rule aborted_step)
    with False Cons.IH show ?thesis by (simp add: run_Cons)
  qed
qed

lemma switchChat_aborts:
  "requestControllerRef s = Some c \<Longrightarrow> new \<noteq> chatId s \<Longrightarrow>
     c \<in> aborted (switchChat new s) \<and> typingTimerRef (switchChat new s) = None
   \<and> tokenQueueRef (switchChat new s) = [] \<and> \<not> isLoading (switchChat new s)
   \<and> store (switchChat new s) = store s"
  by (simp add: chat_defs Let_def)

lemma unmount_aborts:
  "requestControllerRef s = Some c \<Longrightarrow>
     c \<in> aborted (unmount s) \<and> typingTimerRef (unmount s) = None
   \<and> store (unmount s) = store s"
  by (simp add: chat_defs Let_def)

text \<open>
  Claim C5. Once the controller of a stream is aborted, each of its four callbacks leaves
  the state as it is, now and after any further events: a run of events ends in the state
  it ends in with the callbacks of that stream removed. A switch to another session and
  the unmounting abort the controller of the pending request, stop the typewriter and
  leave the messages as they are.
\<close>

theorem cancelled_stream_is_inert:
  "(c \<in> aborted s \<longrightarrow>
      (\<forall>e. callback_of c e \<longrightarrow> step e s = s)
    \<and> run evs s = run (filter (\<lambda>e. \<not> callback_of c e) evs) s)
   \<and> (requestControllerRef s = Some c \<and> new \<noteq> chatId s \<longrightarrow>
        c \<in> aborted (step (SwitchChat new) s)
      \<and> typingTimerRef (step (SwitchChat new) s) = None
      \<and> tokenQueueRef (step (SwitchChat new) s) = []
      \<and> store (step (SwitchChat new) s) = store s
      \<and> run evs (step (SwitchChat new) s)
          = run (filter (\<lambda>e. \<not> callback_of c e) evs) (step (SwitchChat new) s))
   \<and> (requestControllerRef s = Some c \<longrightarrow>
        c \<in> aborted (step Unmount s)
      \<and> typingTimerRef (step Unmount s) = None
      \<and> store (step Unmount s) = store s
      \<and> run evs (step Unmount s)
          = run (filter (\<lambda>e. \<not> callback_of c e) evs) (step Unmount s))"
  using callback_aborted [of c s] run_filter_aborted [of c s evs]
    switchChat_aborts [of s c new] run_filter_aborted [of c "switchChat new s" evs]
    unmount_aborts [of s c] run_filter_aborted [of c "unmount s" evs]
  by simp

lemma onDone_pending:
  "controller st \<notin> aborted s \<Longrightarrow> tokenQueueRef s \<noteq> [] \<Longrightarrow>
     onDone st s = s\<lparr>streamDoneRef := True\<rparr>"
  by (simp add: chat_defs)

lemma onDone_drained:
  "controller st \<notin> aborted s \<Longrightarrow> tokenQueueRef s = [] \<Longrightarrow>
     onDone st s = s\<lparr>streamDoneRef := True, typingTimerRef := None, isLoading := False,
                     requestControllerRef := None\<rparr>"
  by (simp add: chat_defs)

lemma loading_cleared_step:
  "isLoading s \<Longrightarrow> \<not> isLoading (step e s) \<Longrightarrow> tokenQueueRef (step e s) = []"
  by (cases e) (auto simp: chat_defs Let_def split: option.splits if_splits)

lemma tick_idle:
  "typingTimerRef s = Some cid \<Longrightarrow> tokenQueueRef s = [] \<Longrightarrow> \<not> streamDoneRef s \<Longrightarrow>
     step Tick s = s"
  by (simp add: chat_defs)

lemma tick_finalizes:
  "typingTimerRef s = Some cid \<Longrightarrow>
     (if streamDoneRef s \<and> tokenQueueRef (step Tick s) = []
      then \<not> isLoading (step Tick s) \<and> typingTimerRef (step Tick s) = None
      else isLoading (step Tick s) = isLoading s \<and> typingTimerRef (step Tick s) = Some cid)
   \<and> tokenQueueRef (step Tick s) = drop 1 (tokenQueueRef s)
   \<and> streamDoneRef (step Tick s) = streamDoneRef s"
  by (auto simp: chat_defs Let_def)

lemma last_content_append_chunk:
  "xs \<noteq> [] \<Longrightarrow> role (last xs) = Assistant \<Longrightarrow>
     append_chunk chunk xs \<noteq> [] \<and> role (last (append_chunk chunk xs)) = Assistant
   \<and> content (last (append_chunk chunk xs)) = content (last xs) @ chunk"
  by (cases xs rule: rev_cases) (simp_all add: updater_simps)

lemma last_content_replace_sources:
  "xs \<noteq> [] \<Longrightarrow> role (last xs) = Assistant \<Longrightarrow>
     replace_sources srcs xs \<noteq> [] \<and> role (last (replace_sources srcs xs)) = Assistant
   \<and> content (last (replace_sources srcs xs)) = content (last xs)"
  by (cases xs rule: rev_cases) (simp_all add: updater_simps)

lemma last_content_overwrite_error:
  "xs \<noteq> [] \<Longrightarrow> role (last xs) = Assistant \<Longrightarrow>
     overwrite_error error xs \<noteq> [] \<and> role (last (overwrite_error error xs)) = Assistant
   \<and> content (last (overwrite_error error xs)) = error_notice error"
  by (cases xs rule: rev_cases) (simp_all add: updater_simps)

lemma stream_open_token:
  assumes "stream_open st s"
  shows "stream_open st (onToken st token s)
    \<and> last_content (chat st) (onToken st token s) = last_content (chat st) s
    \<and> tokenQueueRef (onToken st token s) = tokenQueueRef s @ token
    \<and> isLoading (onToken st token s) = isLoading s
    \<and> streamDoneRef (onToken st token s) = streamDoneRef s"
  using assms
  by (auto simp: stream_open_def last_content_def onToken_def startTypewriter_def)

lemma stream_open_sources:
  assumes "stream_open st s"
  shows "stream_open st (onSources st srcs s)
    \<and> last_content (chat st) (onSources st srcs s) = last_content (chat st) s
    \<and> tokenQueueRef (onSources st srcs s) = tokenQueueRef s
    \<and> isLoading (onSources st srcs s) = isLoading s
    \<and> streamDoneRef (onSources st srcs s) = streamDoneRef s"
  using assms last_content_replace_sources [of "store s (chat st)" srcs]
  by (simp add: stream_open_def last_content_def onSources_def onMessagesChange_def)

lemma stream_open_done:
  assumes "stream_open st s"
  shows "stream_open st (onDone st s)
    \<and> last_content (chat st) (onDone st s) = last_content (chat st) s
    \<and> tokenQueueRef (onDone st s) = tokenQueueRef s
    \<and> streamDoneRef (onDone st s)
    \<and> isLoading (onDone st s) = (isLoading s \<and> tokenQueueRef s \<noteq> [])"
  using assms
  by (auto simp: stream_open_def last_content_def onDone_def finalizeIfStreamFinished_def
        stopTypingTimer_def)

lemma stream_open_tick:
  assumes "stream_open st s"
  shows "stream_open st (step Tick s)
    \<and> last_content (chat st) (step Tick s) = last_content (chat st) s @ take 1 (tokenQueueRef s)
    \<and> tokenQueueRef (step Tick s) = drop 1 (tokenQueueRef s)
    \<and> streamDoneRef (step Tick s) = streamDoneRef s
    \<and> isLoading (step Tick s)
        = (isLoading s \<and> \<not> (typingTimerRef s \<noteq> None \<and> streamDoneRef s
                                 \<and> drop 1 (tokenQueueRef s) = []))"
proof (cases "typingTimerRef s")
  case None
  with assms have "tokenQueueRef s = []" by (simp add: stream_open_def)
  with None assms show ?thesis by simp
next
  case (Some cid)
  with assms have cid: "cid = chat st" by (simp add: stream_open_def)
  show ?thesis
  proof (cases "tokenQueueRef s = []")
    case True
    with Some assms show ?thesis
      by (auto simp: stream_open_def last_content_def tick_def finalizeIfStreamFinished_def
            stopTypingTimer_def)
  next
    case False
    with Some cid assms show ?thesis
      by (simp add: stream_open_def last_content_def tick_def finalizeIfStreamFinished_def
            stopTypingTimer_def Let_def appendAssistantChunk_def onMessagesChange_def
            CHARS_PER_TICK_def last_content_append_chunk)
  qed
qed

lemma stream_open_step:
  assumes "stream_open st s" and "of_stream st e"
  shows "stream_open st (step e s)
    \<and> last_content (chat st) (step e s) @ tokenQueueRef (step e s)
        = last_content (chat st) s @ tokenQueueRef s @ token_text e"
proof (cases e)
  case (Token st' token)
  with assms(2) have "st' = st" by (simp add: of_stream_def)
  with Token stream_open_token [OF assms(1), of token] show ?thesis by simp
next
  case (Sources st' srcs)
  with assms(2) have "st' = st" by (simp add: of_stream_def)
  with Sources stream_open_sources [OF assms(1), of srcs] show ?thesis by simp
next
  case (Done st')
  with assms(2) have "st' = st" by (simp add: of_stream_def)
  with Done stream_open_done [OF assms(1)] show ?thesis by simp
next
  case Tick
  with stream_open_tick [OF assms(1)] show ?thesis by simp
qed (use assms(2) in \<open>simp_all add: of_stream_def\<close>)

lemma stream_open_run:
  assumes "stream_open st s" and "\<forall>e\<in>set evs. of_stream st e"
  shows "stream_open st (run evs s)
    \<and> last_content (chat st) (run evs s) @ tokenQueueRef (run evs s)
        = last_content (chat st) s @ tokenQueueRef s @ arrived evs"
  using assms(2)
proof (induction evs rule: rev_induct)
  case Nil
  with assms(1) show ?case by (simp add: run_Nil arrived_def)
next
  case (snoc e evs)
  then have IH: "stream_open st (run evs s)"
     "last_content (chat st) (run evs s) @ tokenQueueRef (run evs s)
        = last_content (chat st) s @ tokenQueueRef s @ arrived evs"
    and e: "of_stream st e" by simp_all
  from stream_open_step [OF IH(1) e] IH(2)
  show ?case by (simp add: run_append run_Cons run_Nil arrived_def)
qed

lemma stream_open_submit:
  assumes "js_trim (input s) \<noteq> []" and "\<not> isLoading s" and "controllers s \<notin> aborted s"
    and "st = \<lparr>controller = controllers s, chat = chatId s\<rparr>"
  shows "stream_open st (handleSubmit s)
    \<and> last_content (chat st) (handleSubmit s) = []
    \<and> tokenQueueRef (handleSubmit s) = []
    \<and> isLoading (handleSubmit s) \<and> \<not> streamDoneRef (handleSubmit s)
    \<and> store (handleSubmit s) (chatId s) =
        store s (chatId s) @ [\<lparr>role = User, content = js_trim (input s), sources = None\<rparr>,
                              \<lparr>role = Assistant, content = [], sources = Some []\<rparr>]"
  using assms
  by (simp add: stream_open_def last_content_def handleSubmit_def Let_def stopTypingTimer_def
        onMessagesChange_def)

lemma streaming_of_stream: "streaming st e \<Longrightarrow> of_stream st e"
  by (simp add: of_stream_def)

lemma reading_step:
  assumes "stream_open st s" and "streaming st e" and "isLoading s" and "\<not> streamDoneRef s"
  shows "isLoading (step e s) \<and> \<not> streamDoneRef (step e s)"
proof (cases e)
  case (Token st' token)
  with assms(2) have "st' = st" by simp
  with Token stream_open_token [OF assms(1), of token] assms(3,4) show ?thesis by simp
next
  case (Sources st' srcs)
  with assms(2) have "st' = st" by simp
  with Sources stream_open_sources [OF assms(1), of srcs] assms(3,4) show ?thesis by simp
next
  case Tick
  with stream_open_tick [OF assms(1)] assms(3,4) show ?thesis by simp
qed (use assms(2) in simp_all)

lemma reading_run:
  assumes "stream_open st s" and "isLoading s" and "\<not> streamDoneRef s"
    and "\<forall>e\<in>set evs. streaming st e"
  shows "isLoading (run evs s) \<and> \<not> streamDoneRef (run evs s)"
  using assms(4)
proof (induction evs rule: rev_induct)
  case Nil
  with assms show ?case by (simp add: run_Nil)
next
  case (snoc e evs)
  then have IH: "isLoading (run evs s)" "\<not> streamDoneRef (run evs s)"
    and e: "streaming st e" and evs: "\<forall>e\<in>set evs. of_stream st e"
    by (simp_all add: streaming_of_stream)
  from stream_open_run [OF assms(1) evs] have "stream_open st (run evs s)" by simp
  from reading_step [OF this e IH] show ?case by (simp add: run_append run_Cons run_Nil)
qed

lemma ticks_reveal:
  assumes "stream_open st s"
  shows "stream_open st (run (replicate k Tick) s)
    \<and> last_content (chat st) (run (replicate k Tick) s)
        = last_content (chat st) s @ take k (tokenQueueRef s)
    \<and> tokenQueueRef (run (replicate k Tick) s) = drop k (tokenQueueRef s)
    \<and> streamDoneRef (run (replicate k Tick) s) = streamDoneRef s"
  using assms
proof (induction k arbitrary: s)
  case 0
  then show ?case by (simp add: run_Nil)
next
  case (Suc k)
  note T = stream_open_tick [OF Suc.prems]
  from T have o: "stream_open st (step Tick s)" by simp
  have "take (Suc k) (tokenQueueRef s)
          = take 1 (tokenQueueRef s) @ take k (drop 1 (tokenQueueRef s))"
    using take_add [of 1 k "tokenQueueRef s"] by simp
  with Suc.IH [OF o] T show ?case by (simp add: run_Cons)
qed

lemma ticks_drain:
  assumes "stream_open st s" and "streamDoneRef s"
    and "isLoading s \<longleftrightarrow> tokenQueueRef s \<noteq> []"
  shows "isLoading (run (replicate k Tick) s) \<longleftrightarrow> k < length (tokenQueueRef s)"
  using assms
proof (induction k arbitrary: s)
  case 0
  then show ?case by (simp add: run_Nil)
next
  case (Suc k)
  note T = stream_open_tick [OF Suc.prems(1)]
  from T have o: "stream_open st (step Tick s)" by simp
  from T Suc.prems have d: "streamDoneRef (step Tick s)" by simp
  have l: "isLoading (step Tick s) \<longleftrightarrow> tokenQueueRef (step Tick s) \<noteq> []"
  proof (cases "tokenQueueRef s = []")
    case True
    with T Suc.prems show ?thesis by simp
  next
    case False
    with Suc.prems(1) have "typingTimerRef s \<noteq> None" by (simp add: stream_open_def)
    with T Suc.prems False show ?thesis by simp
  qed
  from Suc.IH [OF o d l] T show ?case by (simp add: run_Cons) linarith
qed

lemma error_on_open_stream:
  assumes "stream_open st s"
  shows "typingTimerRef (onError st message s) = None
    \<and> tokenQueueRef (onError st message s) = []
    \<and> last_content (chat st) (onError st message s) = error_notice message
    \<and> \<not> isLoading (onError st message s)
    \<and> requestControllerRef (onError st message s) = None
    \<and> step Tick (onError st message s) = onError st message s
    \<and> butlast (store (onError st message s) (chat st)) = butlast (store s (chat st))"
proof -
  have "butlast (overwrite_error message xs) = butlast xs" for xs
    by (cases xs rule: rev_cases) (simp_all add: updater_simps)
  with assms show ?thesis
    by (simp add: stream_open_def last_content_def onError_def Let_def stopTypingTimer_def
          onMessagesChange_def last_content_overwrite_error)
qed

text \<open>
  A controller is numbered when it is created, so in every state the component reaches
  from its mounting the aborted controllers are among those created, and the controller of
  the next submission is not aborted.
\<close>

lemma controllers_step:
  assumes "\<forall>c\<in>aborted s. c < controllers s"
    and "\<forall>c. requestControllerRef s = Some c \<longrightarrow> c < controllers s"
  shows "(\<forall>c\<in>aborted (step e s). c < controllers (step e s))
    \<and> (\<forall>c. requestControllerRef (step e s) = Some c \<longrightarrow> c < controllers (step e s))"
  using assms
  by (cases e) (auto simp: chat_defs Let_def split: option.splits if_splits)

lemma controllers_run:
  assumes "\<forall>c\<in>aborted s. c < controllers s"
    and "\<forall>c. requestControllerRef s = Some c \<longrightarrow> c < controllers s"
  shows "(\<forall>c\<in>aborted (run evs s). c < controllers (run evs s))
    \<and> (\<forall>c. requestControllerRef (run evs s) = Some c \<longrightarrow> c < controllers (run evs s))"
  using assms
proof (induction evs arbitrary: s)
  case Nil
  then show ?case by (simp add: run_Nil)
next
  case (Cons e evs)
  from controllers_step [OF Cons.prems, of e] Cons.IH [of "step e s"]
  show ?case by (simp add: run_Cons)
qed

lemma new_controller_not_aborted:
  "controllers (run evs (mount cid st)) \<notin> aborted (run evs (mount cid st))"
proof -
  have "\<forall>c\<in>aborted (run evs (mount cid st)). c < controllers (run evs (mount cid st))"
    using controllers_run [of "mount cid st" evs] by (simp add: mount_def)
  then show ?thesis by blast
qed

lemma tick_stops:
  "streamDoneRef s \<Longrightarrow> drop 1 (tokenQueueRef s) = [] \<Longrightarrow>
     typingTimerRef (step Tick s) = None"
  by (cases "typingTimerRef s") (auto simp: chat_defs Let_def)

text \<open>
  Claim C2. After a submission, whatever the interleaving of the tokens and sources of its
  stream with the ticks, the content of the assistant message followed by the queue is the
  concatenation of the tokens in their order of arrival. After \<open>Done\<close> and \<open>k\<close> ticks the
  content is the prefix of that concatenation that is \<open>k\<close> characters longer, and once the
  ticks have covered the queue the content is the whole concatenation, the queue is empty,
  the typewriter is stopped and loading is cleared.
\<close>

theorem typewriter_fifo:
  assumes "js_trim (input s0) \<noteq> []" and "\<not> isLoading s0" and "controllers s0 \<notin> aborted s0"
    and "st = \<lparr>controller = controllers s0, chat = chatId s0\<rparr>"
    and "\<forall>e\<in>set evs. streaming st e"
    and "s1 = run evs (step Submit s0)"
    and "s2 = run (Done st # replicate k Tick) s1"
  shows "last_content (chat st) s1 @ tokenQueueRef s1 = arrived evs
    \<and> isLoading s1
    \<and> last_content (chat st) s2 = take (length (last_content (chat st) s1) + k) (arrived evs)
    \<and> tokenQueueRef s2 = drop (length (last_content (chat st) s1) + k) (arrived evs)
    \<and> (isLoading s2 \<longleftrightarrow> k < length (tokenQueueRef s1))
    \<and> (length (tokenQueueRef s1) \<le> k \<longrightarrow>
          last_content (chat st) s2 = arrived evs \<and> tokenQueueRef s2 = []
        \<and> \<not> isLoading s2 \<and> typingTimerRef s2 = None)"
proof -
  note S = stream_open_submit [OF assms(1-4)]
  from S have o0: "stream_open st (handleSubmit s0)" by simp
  from assms(5) have evs: "\<forall>e\<in>set evs. of_stream st e" by (simp add: streaming_of_stream)
  from stream_open_run [OF o0 evs] S assms(6)
  have o1: "stream_open st s1"
    and fifo: "last_content (chat st) s1 @ tokenQueueRef s1 = arrived evs" by simp_all
  from reading_run [OF o0 _ _ assms(5)] S assms(6)
  have r1: "isLoading s1" "\<not> streamDoneRef s1" by simp_all
  let ?d = "onDone st s1"
  note D = stream_open_done [OF o1]
  from D have od: "stream_open st ?d" and dd: "streamDoneRef ?d"
    and ld: "isLoading ?d \<longleftrightarrow> tokenQueueRef ?d \<noteq> []" using r1 by simp_all
  have s2: "s2 = run (replicate k Tick) ?d" using assms(7) by (simp add: run_Cons)
  note R = ticks_reveal [OF od, of k]
  from R D s2 have c2: "last_content (chat st) s2 = last_content (chat st) s1 @ take k (tokenQueueRef s1)"
    and q2: "tokenQueueRef s2 = drop k (tokenQueueRef s1)" and o2: "stream_open st s2"
    and d2: "streamDoneRef s2"
    by simp_all
  from ticks_drain [OF od dd ld, of k] D s2
  have l2: "isLoading s2 \<longleftrightarrow> k < length (tokenQueueRef s1)" by simp
  have t: "take (length (last_content (chat st) s1) + k) (arrived evs)
             = last_content (chat st) s1 @ take k (tokenQueueRef s1)"
    and dr: "drop (length (last_content (chat st) s1) + k) (arrived evs)
             = drop k (tokenQueueRef s1)"
    unfolding fifo [symmetric] by simp_all
  have fin: "last_content (chat st) s2 = arrived evs \<and> tokenQueueRef s2 = []
        \<and> \<not> isLoading s2 \<and> typingTimerRef s2 = None" if k: "length (tokenQueueRef s1) \<le> k"
  proof -
    have tm: "typingTimerRef s2 = None"
    proof (cases k)
      case 0
      with k have e: "tokenQueueRef s1 = []" by simp
      with 0 s2 o1 show ?thesis
        by (simp add: run_Nil onDone_def stream_open_def finalizeIfStreamFinished_def
              stopTypingTimer_def)
    next
      case (Suc j)
      let ?p = "run (replicate j Tick) ?d"
      have "replicate (Suc j) Tick = replicate j Tick @ [Tick]"
        by (simp add: replicate_append_same)
      then have s2': "s2 = step Tick ?p"
        using s2 Suc by (simp only: run_append run_Cons run_Nil)
      note P = ticks_reveal [OF od, of j]
      from P have op: "stream_open st ?p" by simp
      from P D have qp: "tokenQueueRef ?p = drop j (tokenQueueRef s1)"
        and dp: "streamDoneRef ?p" by simp_all
      from k Suc have short: "drop 1 (tokenQueueRef ?p) = []" by (simp add: qp)
      from tick_stops [OF dp short] show ?thesis unfolding s2' .
    qed
    from k c2 q2 l2 fifo tm show ?thesis by auto
  qed
  from fifo r1(1) c2 q2 l2 t dr fin show ?thesis by simp
qed

theorem typewriter_fifo_witness:
  "js_trim (input ((mount ''a'' (\<lambda>c. []))\<lparr>input := ''hi''\<rparr>)) \<noteq> []
   \<and> \<not> isLoading ((mount ''a'' (\<lambda>c. []))\<lparr>input := ''hi''\<rparr>)
   \<and> controllers ((mount ''a'' (\<lambda>c. []))\<lparr>input := ''hi''\<rparr>)
        \<notin> aborted ((mount ''a'' (\<lambda>c. []))\<lparr>input := ''hi''\<rparr>)
   \<and> list_all (streaming \<lparr>controller = 0, chat = ''a''\<rparr>)
        [Token \<lparr>controller = 0, chat = ''a''\<rparr> ''ab'', Tick,
         Token \<lparr>controller = 0, chat = ''a''\<rparr> ''c'']
   \<and> last_content ''a''
        (run [Token \<lparr>controller = 0, chat = ''a''\<rparr> ''ab'', Tick,
              Token \<lparr>controller = 0, chat = ''a''\<rparr> ''c'']
           (step Submit ((mount ''a'' (\<lambda>c. []))\<lparr>input := ''hi''\<rparr>))) = ''a''
   \<and> tokenQueueRef
        (run [Token \<lparr>controller = 0, chat = ''a''\<rparr> ''ab'', Tick,
              Token \<lparr>controller = 0, chat = ''a''\<rparr> ''c'']
           (step Submit ((mount ''a'' (\<lambda>c. []))\<lparr>input := ''hi''\<rparr>))) = ''bc''
   \<and> length ''bc'' \<le> (2::nat)
   \<and> last_content ''a''
        (run (Done \<lparr>controller = 0, chat = ''a''\<rparr> # replicate 2 Tick)
          (run [Token \<lparr>controller = 0, chat = ''a''\<rparr> ''ab'', Tick,
                Token \<lparr>controller = 0, chat = ''a''\<rparr> ''c'']
             (step Submit ((mount ''a'' (\<lambda>c. []))\<lparr>input := ''hi''\<rparr>)))) = ''abc''
   \<and> \<not> isLoading
        (run (Done \<lparr>controller = 0, chat = ''a''\<rparr> # replicate 2 Tick)
          (run [Token \<lparr>controller = 0, chat = ''a''\<rparr> ''ab'', Tick,
                Token \<lparr>controller = 0, chat = ''a''\<rparr> ''c'']
             (step Submit ((mount ''a'' (\<lambda>c. []))\<lparr>input := ''hi''\<rparr>))))"
proof -
  let ?s0 = "(mount ''a'' (\<lambda>c. []))\<lparr>input := ''hi''\<rparr>"
  let ?st = "\<lparr>controller = 0, chat = ''a''\<rparr>"
  let ?evs = "[Token ?st ''ab'', Tick, Token ?st ''c'']"
  let ?s1 = "run ?evs (step Submit ?s0)"
  let ?s2 = "run (Done ?st # replicate 2 Tick) ?s1"
  have h1: "js_trim (input ?s0) \<noteq> []" by code_simp
  have h2: "\<not> isLoading ?s0" by (simp add: mount_def)
  have h3: "controllers ?s0 \<notin> aborted ?s0" by (simp add: mount_def)
  have h4: "?st = \<lparr>controller = controllers ?s0, chat = chatId ?s0\<rparr>" by (simp add: mount_def)
  have h5: "\<forall>e\<in>set ?evs. streaming ?st e" by simp
  have q: "tokenQueueRef ?s1 = ''bc''" by code_simp
  have c: "last_content ''a'' ?s1 = ''a''" by code_simp
  have a: "arrived ?evs = ''abc''" by (simp add: arrived_def)
  have k: "length ''bc'' \<le> (2::nat)" by simp
  note T = typewriter_fifo [OF h1 h2 h3 h4 h5 refl refl, of 2]
  from T q k a have r: "last_content ''a'' ?s2 = ''abc''" "\<not> isLoading ?s2" by simp_all
  have h5': "list_all (streaming ?st) ?evs" by simp
  show ?thesis by (intro conjI h1 h2 h3 h5' c q k r)
qed

text \<open>
  Claim C3. When \<open>Error\<close> arrives on a stream that is not cancelled, after any tokens,
  sources, ticks (and \<open>Done\<close>) of that stream: the typewriter is stopped and ticks no more,
  the queue is empty, the assistant message is the one before with its content replaced by
  exactly the error notice, and loading is cleared.
\<close>

theorem error_replaces_partial_content:
  assumes "js_trim (input s0) \<noteq> []" and "\<not> isLoading s0" and "controllers s0 \<notin> aborted s0"
    and "st = \<lparr>controller = controllers s0, chat = chatId s0\<rparr>"
    and "\<forall>e\<in>set evs. of_stream st e"
    and "s1 = run evs (step Submit s0)"
    and "s2 = step (Error st message) s1"
  shows "typingTimerRef s2 = None
    \<and> tokenQueueRef s2 = []
    \<and> last_content (chat st) s2 = error_notice message
    \<and> \<not> isLoading s2
    \<and> requestControllerRef s2 = None
    \<and> run (replicate k Tick) s2 = s2
    \<and> length (store s2 (chat st)) = length (store s1 (chat st))
    \<and> butlast (store s2 (chat st)) = butlast (store s1 (chat st))
    \<and> last (store s2 (chat st)) = (last (store s1 (chat st)))\<lparr>content := error_notice message\<rparr>"
proof -
  note S = stream_open_submit [OF assms(1-4)]
  from S have o0: "stream_open st (handleSubmit s0)" by simp
  from stream_open_run [OF o0 assms(5)] assms(6) have o1: "stream_open st s1" by simp
  note E = error_on_open_stream [OF o1, of message]
  have s2: "s2 = onError st message s1" using assms(7) by simp
  have idle: "run (replicate k Tick) s2 = s2"
  proof (induction k)
    case 0
    show ?case by (simp add: run_Nil)
  next
    case (Suc k)
    from E s2 have "step Tick s2 = s2" by simp
    with Suc show ?case by (simp only: replicate_Suc run_Cons)
  qed
  have l: "length (store s2 (chat st)) = length (store s1 (chat st))"
    and m: "last (store s2 (chat st))
              = (last (store s1 (chat st)))\<lparr>content := error_notice message\<rparr>"
    using o1 s2
    by (cases "store s1 (chat st)" rule: rev_cases;
        simp add: stream_open_def onError_def Let_def stopTypingTimer_def onMessagesChange_def
          updater_simps)+
  from E s2 idle l m show ?thesis by simp
qed

theorem error_replaces_partial_content_witness:
  "js_trim (input ((mount ''a'' (\<lambda>c. []))\<lparr>input := ''hi''\<rparr>)) \<noteq> []
   \<and> \<not> isLoading ((mount ''a'' (\<lambda>c. []))\<lparr>input := ''hi''\<rparr>)
   \<and> controllers ((mount ''a'' (\<lambda>c. []))\<lparr>input := ''hi''\<rparr>)
        \<notin> aborted ((mount ''a'' (\<lambda>c. []))\<lparr>input := ''hi''\<rparr>)
   \<and> list_all (of_stream \<lparr>controller = 0, chat = ''a''\<rparr>)
        [Token \<lparr>controller = 0, chat = ''a''\<rparr> ''abc'', Tick, Tick]
   \<and> last_content ''a''
        (run [Token \<lparr>controller = 0, chat = ''a''\<rparr> ''abc'', Tick, Tick]
           (step Submit ((mount ''a'' (\<lambda>c. []))\<lparr>input := ''hi''\<rparr>))) = ''ab''
   \<and> tokenQueueRef
        (run [Token \<lparr>controller = 0, chat = ''a''\<rparr> ''abc'', Tick, Tick]
           (step Submit ((mount ''a'' (\<lambda>c. []))\<lparr>input := ''hi''\<rparr>))) = ''c''
   \<and> last_content ''a''
        (step (Error \<lparr>controller = 0, chat = ''a''\<rparr> ''boom'')
          (run [Token \<lparr>controller = 0, chat = ''a''\<rparr> ''abc'', Tick, Tick]
             (step Submit ((mount ''a'' (\<lambda>c. []))\<lparr>input := ''hi''\<rparr>))))
        = error_notice ''boom''
   \<and> tokenQueueRef
        (step (Error \<lparr>controller = 0, chat = ''a''\<rparr> ''boom'')
          (run [Token \<lparr>controller = 0, chat = ''a''\<rparr> ''abc'', Tick, Tick]
             (step Submit ((mount ''a'' (\<lambda>c. []))\<lparr>input := ''hi''\<rparr>)))) = []
   \<and> \<not> isLoading
        (step (Error \<lparr>controller = 0, chat = ''a''\<rparr> ''boom'')
          (run [Token \<lparr>controller = 0, chat = ''a''\<rparr> ''abc'', Tick, Tick]
             (step Submit ((mount ''a'' (\<lambda>c. []))\<lparr>input := ''hi''\<rparr>))))"
proof -
  let ?s0 = "(mount ''a'' (\<lambda>c. []))\<lparr>input := ''hi''\<rparr>"
  let ?st = "\<lparr>controller = 0, chat = ''a''\<rparr>"
  let ?evs = "[Token ?st ''abc'', Tick, Tick]"
  let ?s1 = "run ?evs (step Submit ?s0)"
  let ?s2 = "step (Error ?st ''boom'') ?s1"
  have h1: "js_trim (input ?s0) \<noteq> []" by code_simp
  have h2: "\<not> isLoading ?s0" by (simp add: mount_def)
  have h3: "controllers ?s0 \<notin> aborted ?s0" by (simp add: mount_def)
  have h4: "?st = \<lparr>controller = controllers ?s0, chat = chatId ?s0\<rparr>" by (simp add: mount_def)
  have h5: "\<forall>e\<in>set ?evs. of_stream ?st e" by (simp add: of_stream_def)
  have q: "tokenQueueRef ?s1 = ''c''" by code_simp
  have c: "last_content ''a'' ?s1 = ''ab''" by code_simp
  note T = error_replaces_partial_content [OF h1 h2 h3 h4 h5 refl refl, of "''boom''"]
  from T have r: "last_content ''a'' ?s2 = error_notice ''boom''" "tokenQueueRef ?s2 = []"
    "\<not> isLoading ?s2" by simp_all
  have h5': "list_all (of_stream ?st) ?evs" by (simp add: of_stream_def)
  show ?thesis by (intro conjI h1 h2 h3 h5' c q r)
qed

text \<open>
  Claim C6. \<open>Done\<close> with text still queued only sets the flag of the finished stream;
  with an empty queue it also stops the typewriter and clears loading. No event clears
  loading and leaves text in the queue. A tick clears loading and stops the typewriter
  exactly when the stream is finished and the tick leaves the queue empty; a tick on an
  empty queue of an unfinished stream changes nothing and the interval stays registered.
  Along a stream, loading holds until \<open>Done\<close>, and after \<open>Done\<close> exactly while text is queued.
\<close>

theorem loading_cleared_only_when_drained:
  "(controller st \<notin> aborted s \<and> tokenQueueRef s \<noteq> [] \<longrightarrow>
      step (Done st) s = s\<lparr>streamDoneRef := True\<rparr>)
   \<and> (controller st \<notin> aborted s \<and> tokenQueueRef s = [] \<longrightarrow>
      step (Done st) s = s\<lparr>streamDoneRef := True, typingTimerRef := None, isLoading := False,
                            requestControllerRef := None\<rparr>)
   \<and> (isLoading s \<and> \<not> isLoading (step e s) \<longrightarrow> tokenQueueRef (step e s) = [])
   \<and> (typingTimerRef s = Some cid \<longrightarrow>
        (if streamDoneRef s \<and> tokenQueueRef (step Tick s) = []
         then \<not> isLoading (step Tick s) \<and> typingTimerRef (step Tick s) = None
         else isLoading (step Tick s) = isLoading s \<and> typingTimerRef (step Tick s) = Some cid))
   \<and> (typingTimerRef s = Some cid \<and> tokenQueueRef s = [] \<and> \<not> streamDoneRef s \<longrightarrow>
        step Tick s = s)
   \<and> (js_trim (input s0) \<noteq> [] \<and> \<not> isLoading s0 \<and> controllers s0 \<notin> aborted s0
        \<and> st0 = \<lparr>controller = controllers s0, chat = chatId s0\<rparr>
        \<and> (\<forall>e\<in>set evs. streaming st0 e) \<longrightarrow>
        isLoading (run evs (step Submit s0))
      \<and> (isLoading (run (Done st0 # replicate k Tick) (run evs (step Submit s0)))
           \<longleftrightarrow> tokenQueueRef (run (Done st0 # replicate k Tick) (run evs (step Submit s0)))
                 \<noteq> []))"
proof -
  have a: "step (Done st) s = s\<lparr>streamDoneRef := True\<rparr>"
    if "controller st \<notin> aborted s \<and> tokenQueueRef s \<noteq> []"
    using that onDone_pending [of st s] by simp
  have b: "step (Done st) s = s\<lparr>streamDoneRef := True, typingTimerRef := None,
             isLoading := False, requestControllerRef := None\<rparr>"
    if "controller st \<notin> aborted s \<and> tokenQueueRef s = []"
    using that onDone_drained [of st s] by simp
  have c: "tokenQueueRef (step e s) = []" if "isLoading s \<and> \<not> isLoading (step e s)"
    using that loading_cleared_step [of s e] by simp
  have d: "if streamDoneRef s \<and> tokenQueueRef (step Tick s) = []
         then \<not> isLoading (step Tick s) \<and> typingTimerRef (step Tick s) = None
         else isLoading (step Tick s) = isLoading s \<and> typingTimerRef (step Tick s) = Some cid"
    if "typingTimerRef s = Some cid"
    using tick_finalizes [OF that] by (rule conjunct1)
  have e: "step Tick s = s"
    if "typingTimerRef s = Some cid \<and> tokenQueueRef s = [] \<and> \<not> streamDoneRef s"
    using that tick_idle [of s cid] by simp
  have f: "isLoading (run evs (step Submit s0))
      \<and> (isLoading (run (Done st0 # replicate k Tick) (run evs (step Submit s0)))
           \<longleftrightarrow> tokenQueueRef (run (Done st0 # replicate k Tick) (run evs (step Submit s0)))
                 \<noteq> [])"
    if h: "js_trim (input s0) \<noteq> [] \<and> \<not> isLoading s0 \<and> controllers s0 \<notin> aborted s0
        \<and> st0 = \<lparr>controller = controllers s0, chat = chatId s0\<rparr>
        \<and> (\<forall>e\<in>set evs. streaming st0 e)"
  proof -
    let ?s1 = "run evs (step Submit s0)"
    from h have h1: "js_trim (input s0) \<noteq> []" and h2: "\<not> isLoading s0"
      and h3: "controllers s0 \<notin> aborted s0"
      and h4: "st0 = \<lparr>controller = controllers s0, chat = chatId s0\<rparr>"
      and h5: "\<forall>e\<in>set evs. streaming st0 e" by blast+
    note S = stream_open_submit [OF h1 h2 h3 h4]
    from S have o0: "stream_open st0 (handleSubmit s0)" by simp
    from h5 have evs: "\<forall>e\<in>set evs. of_stream st0 e" by (simp add: streaming_of_stream)
    from stream_open_run [OF o0 evs] have o1: "stream_open st0 ?s1" by simp
    from reading_run [OF o0 _ _ h5] S have r1: "isLoading ?s1" "\<not> streamDoneRef ?s1"
      by simp_all
    note D = stream_open_done [OF o1]
    from D have od: "stream_open st0 (onDone st0 ?s1)" and dd: "streamDoneRef (onDone st0 ?s1)"
      and ld: "isLoading (onDone st0 ?s1) \<longleftrightarrow> tokenQueueRef (onDone st0 ?s1) \<noteq> []"
      using r1 by simp_all
    from ticks_drain [OF od dd ld, of k] ticks_reveal [OF od, of k] r1(1)
    show ?thesis by (simp add: run_Cons) linarith
  qed
  from a b c d e f show ?thesis by blast
qed

theorem submit_rejected_witness:
  "js_trim (input ((mount ''a'' (\<lambda>c. []))\<lparr>input := [CHR 0xC2, CHR 0xA0, CHR 0x20, CHR 0xE2, CHR 0x80, CHR 0xA8, LF]\<rparr>)) = []
   \<and> handleSubmit ((mount ''a'' (\<lambda>c. []))\<lparr>input := [CHR 0xC2, CHR 0xA0, CHR 0x20, CHR 0xE2, CHR 0x80, CHR 0xA8, LF]\<rparr>)
       = (mount ''a'' (\<lambda>c. []))\<lparr>input := [CHR 0xC2, CHR 0xA0, CHR 0x20, CHR 0xE2, CHR 0x80, CHR 0xA8, LF]\<rparr>
   \<and> isLoading (step (SetInput ''again'') (step Submit example_idle))
   \<and> requests (step Submit (step (SetInput ''again'') (step Submit example_idle)))
       = requests (step (SetInput ''again'') (step Submit example_idle))
   \<and> store (step Submit (step (SetInput ''again'') (step Submit example_idle)))
       = store (step (SetInput ''again'') (step Submit example_idle))"
proof -
  let ?s = "(mount ''a'' (\<lambda>c. []))\<lparr>input := [CHR 0xC2, CHR 0xA0, CHR 0x20, CHR 0xE2, CHR 0x80, CHR 0xA8, LF]\<rparr>"
  let ?t = "step (SetInput ''again'') (step Submit example_idle)"
  have h1: "js_trim (input ?s) = []" by code_simp
  have h2: "isLoading ?t" by code_simp
  from submit_rejected [of ?s] h1 have a: "handleSubmit ?s = ?s" by blast
  from submit_rejected [of ?t] h2
  have b: "requests (step Submit ?t) = requests ?t" "store (step Submit ?t) = store ?t"
    by blast+
  show ?thesis by (intro conjI h1 a h2 b)
qed

theorem cancelled_stream_is_inert_witness:
  "requestControllerRef (run [Submit, Token example_stream ''ab'', Tick] example_idle) = Some 0
   \<and> ''b'' \<noteq> chatId (run [Submit, Token example_stream ''ab'', Tick] example_idle)
   \<and> 0 \<in> aborted (step (SwitchChat ''b'')
                     (run [Submit, Token example_stream ''ab'', Tick] example_idle))
   \<and> callback_of 0 (Token example_stream ''zz'')
   \<and> step (Token example_stream ''zz'')
        (step (SwitchChat ''b'') (run [Submit, Token example_stream ''ab'', Tick] example_idle))
       = step (SwitchChat ''b'') (run [Submit, Token example_stream ''ab'', Tick] example_idle)
   \<and> run [Token example_stream ''zz'', SetInput ''yo'', Submit, Token example_stream ''x'',
          Token example_stream2 ''n'', Done example_stream, Tick, Error example_stream ''boom'']
        (step (SwitchChat ''b'') (run [Submit, Token example_stream ''ab'', Tick] example_idle))
       = run [SetInput ''yo'', Submit, Token example_stream2 ''n'', Tick]
          (step (SwitchChat ''b'') (run [Submit, Token example_stream ''ab'', Tick] example_idle))
   \<and> last_content ''b''
        (run [SetInput ''yo'', Submit, Token example_stream2 ''n'', Tick]
          (step (SwitchChat ''b'')
            (run [Submit, Token example_stream ''ab'', Tick] example_idle))) = ''n''
   \<and> last_content ''a''
        (run [SetInput ''yo'', Submit, Token example_stream2 ''n'', Tick]
          (step (SwitchChat ''b'')
            (run [Submit, Token example_stream ''ab'', Tick] example_idle))) = ''a''
   \<and> 0 \<in> aborted (step Unmount (run [Submit, Token example_stream ''ab'', Tick] example_idle))"
proof -
  let ?s = "run [Submit, Token example_stream ''ab'', Tick] example_idle"
  let ?w = "step (SwitchChat ''b'') ?s"
  let ?evs = "[Token example_stream ''zz'', SetInput ''yo'', Submit, Token example_stream ''x'',
          Token example_stream2 ''n'', Done example_stream, Tick, Error example_stream ''boom'']"
  let ?fs = "[SetInput ''yo'', Submit, Token example_stream2 ''n'', Tick]"
  have h1: "requestControllerRef ?s = Some 0" by code_simp
  have h2: "''b'' \<noteq> chatId ?s" by code_simp
  have cb: "callback_of 0 (Token example_stream ''zz'')" by (simp add: example_stream_def)
  have f: "filter (\<lambda>e. \<not> callback_of 0 e) ?evs = ?fs"
    by (simp add: example_stream_def example_stream2_def)
  have v1: "last_content ''b'' (run ?fs ?w) = ''n''" by code_simp
  have v2: "last_content ''a'' (run ?fs ?w) = ''a''" by code_simp
  note A = cancelled_stream_is_inert [of 0 ?s ?evs "''b''"]
  note A2 = A [THEN conjunct2, THEN conjunct1, THEN mp, OF conjI [OF h1 h2]]
  note A3 = A [THEN conjunct2, THEN conjunct2, THEN mp, OF h1]
  have ab: "0 \<in> aborted ?w" by (rule A2 [THEN conjunct1])
  have r: "run ?evs ?w = run (filter (\<lambda>e. \<not> callback_of 0 e) ?evs) ?w"
    by (rule A2 [THEN conjunct2, THEN conjunct2, THEN conjunct2, THEN conjunct2])
  have u: "0 \<in> aborted (step Unmount ?s)" by (rule A3 [THEN conjunct1])
  note B = cancelled_stream_is_inert [of 0 ?w ?evs "''b''", THEN conjunct1, THEN mp, OF ab]
  have i: "step (Token example_stream ''zz'') ?w = ?w"
    by (rule B [THEN conjunct1, THEN spec, THEN mp, OF cb])
  show ?thesis by (intro conjI h1 h2 ab cb i r [unfolded f] v1 v2 u)
qed

theorem loading_cleared_only_when_drained_witness:
  "controller example_stream \<notin> aborted (run [Submit, Token example_stream ''ab''] example_idle)
   \<and> tokenQueueRef (run [Submit, Token example_stream ''ab''] example_idle) \<noteq> []
   \<and> step (Done example_stream) (run [Submit, Token example_stream ''ab''] example_idle)
       = (run [Submit, Token example_stream ''ab''] example_idle)\<lparr>streamDoneRef := True\<rparr>
   \<and> isLoading (step (Done example_stream)
                   (run [Submit, Token example_stream ''ab''] example_idle))
   \<and> controller example_stream \<notin> aborted (step Submit example_idle)
   \<and> tokenQueueRef (step Submit example_idle) = []
   \<and> isLoading (step Submit example_idle)
   \<and> \<not> isLoading (step (Done example_stream) (step Submit example_idle))
   \<and> tokenQueueRef (step (Done example_stream) (step Submit example_idle)) = []
   \<and> typingTimerRef (run [Submit, Token example_stream ''ab'', Done example_stream, Tick]
                        example_idle) = Some ''a''
   \<and> streamDoneRef (run [Submit, Token example_stream ''ab'', Done example_stream, Tick]
                        example_idle)
   \<and> tokenQueueRef (step Tick
        (run [Submit, Token example_stream ''ab'', Done example_stream, Tick] example_idle)) = []
   \<and> \<not> isLoading (step Tick
        (run [Submit, Token example_stream ''ab'', Done example_stream, Tick] example_idle))
   \<and> typingTimerRef (step Tick
        (run [Submit, Token example_stream ''ab'', Done example_stream, Tick] example_idle))
       = None
   \<and> typingTimerRef (run [Submit, Token example_stream ''a'', Tick] example_idle) = Some ''a''
   \<and> tokenQueueRef (run [Submit, Token example_stream ''a'', Tick] example_idle) = []
   \<and> \<not> streamDoneRef (run [Submit, Token example_stream ''a'', Tick] example_idle)
   \<and> step Tick (run [Submit, Token example_stream ''a'', Tick] example_idle)
       = run [Submit, Token example_stream ''a'', Tick] example_idle
   \<and> js_trim (input example_idle) \<noteq> [] \<and> \<not> isLoading example_idle
   \<and> controllers example_idle \<notin> aborted example_idle
   \<and> example_stream = \<lparr>controller = controllers example_idle, chat = chatId example_idle\<rparr>
   \<and> list_all (streaming example_stream) [Token example_stream ''ab'', Tick]
   \<and> isLoading (run [Token example_stream ''ab'', Tick] (step Submit example_idle))
   \<and> tokenQueueRef (run (Done example_stream # replicate 1 Tick)
        (run [Token example_stream ''ab'', Tick] (step Submit example_idle))) = []
   \<and> \<not> isLoading (run (Done example_stream # replicate 1 Tick)
        (run [Token example_stream ''ab'', Tick] (step Submit example_idle)))"
proof -
  let ?st = example_stream
  let ?a = "run [Submit, Token ?st ''ab''] example_idle"
  let ?b = "step Submit example_idle"
  let ?c = "run [Submit, Token ?st ''ab'', Done ?st, Tick] example_idle"
  let ?d = "run [Submit, Token ?st ''a'', Tick] example_idle"
  let ?evs = "[Token ?st ''ab'', Tick]"
  let ?e = "run (Done ?st # replicate 1 Tick) (run ?evs (step Submit example_idle))"
  have a1: "controller ?st \<notin> aborted ?a" by code_simp
  have a2: "tokenQueueRef ?a \<noteq> []" by code_simp
  have a3: "isLoading (step (Done ?st) ?a)" by code_simp
  have b1: "controller ?st \<notin> aborted ?b" by code_simp
  have b2: "tokenQueueRef ?b = []" by code_simp
  have b3: "isLoading ?b" by code_simp
  have b4: "\<not> isLoading (step (Done ?st) ?b)" by code_simp
  have c1: "typingTimerRef ?c = Some ''a''" by code_simp
  have c2: "streamDoneRef ?c" by code_simp
  have c3: "tokenQueueRef (step Tick ?c) = []" by code_simp
  have d1: "typingTimerRef ?d = Some ''a''" by code_simp
  have d2: "tokenQueueRef ?d = []" by code_simp
  have d3: "\<not> streamDoneRef ?d" by code_simp
  have e1: "js_trim (input example_idle) \<noteq> []" by code_simp
  have e2: "\<not> isLoading example_idle" by code_simp
  have e3: "controllers example_idle \<notin> aborted example_idle" by code_simp
  have e4: "?st = \<lparr>controller = controllers example_idle, chat = chatId example_idle\<rparr>"
    by (simp add: example_stream_def example_idle_def mount_def)
  have e5: "\<forall>e\<in>set ?evs. streaming ?st e" by simp
  have e5': "list_all (streaming ?st) ?evs" by simp
  have e6: "tokenQueueRef ?e = []" by code_simp
  have A: "step (Done ?st) ?a = ?a\<lparr>streamDoneRef := True\<rparr>"
    by (rule loading_cleared_only_when_drained
          [of ?st ?a, THEN conjunct1, THEN mp, OF conjI [OF a1 a2]])
  have B: "tokenQueueRef (step (Done ?st) ?b) = []"
    by (rule loading_cleared_only_when_drained
          [of ?st ?b "Done ?st", THEN conjunct2, THEN conjunct2, THEN conjunct1, THEN mp,
           OF conjI [OF b3 b4]])
  have "if streamDoneRef ?c \<and> tokenQueueRef (step Tick ?c) = []
        then \<not> isLoading (step Tick ?c) \<and> typingTimerRef (step Tick ?c) = None
        else isLoading (step Tick ?c) = isLoading ?c \<and> typingTimerRef (step Tick ?c) = Some ''a''"
    by (rule loading_cleared_only_when_drained
          [of _ ?c _ "''a''", THEN conjunct2, THEN conjunct2, THEN conjunct2, THEN conjunct1,
           THEN mp, OF c1])
  then have "\<not> isLoading (step Tick ?c) \<and> typingTimerRef (step Tick ?c) = None"
    unfolding if_P [OF conjI [OF c2 c3]] .
  then have C: "\<not> isLoading (step Tick ?c)" "typingTimerRef (step Tick ?c) = None"
    by (rule conjunct1, rule conjunct2)
  have D: "step Tick ?d = ?d"
    by (rule loading_cleared_only_when_drained
          [of _ ?d _ "''a''", THEN conjunct2, THEN conjunct2, THEN conjunct2, THEN conjunct2,
           THEN conjunct1, THEN mp, OF conjI [OF d1 conjI [OF d2 d3]]])
  have "isLoading (run ?evs (step Submit example_idle))
      \<and> (isLoading ?e \<longleftrightarrow> tokenQueueRef ?e \<noteq> [])"
    by (rule loading_cleared_only_when_drained
          [of _ _ _ _ example_idle ?st ?evs 1, THEN conjunct2, THEN conjunct2, THEN conjunct2,
           THEN conjunct2, THEN conjunct2, THEN mp,
           OF conjI [OF e1 conjI [OF e2 conjI [OF e3 conjI [OF e4 e5]]]]])
  then have E: "isLoading (run ?evs (step Submit example_idle))" "\<not> isLoading ?e"
    by (simp_all only: e6 simp_thms)
  show ?thesis
    by (intro conjI a1 a2 A a3 b1 b2 b3 b4 B c1 c2 c3 C d1 d2 d3 D e1 e2 e3 e4 e5' E(1) e6 E(2))
qed

section \<open>Properties of the session list\<close>

lemma init_chats_sessions_nonempty:
  "init_chats parse positive raw now new_id = Sessions xs \<Longrightarrow> length xs \<ge> 1"
  by (auto simp: init_chats_def Suc_le_eq split: option.splits if_splits sum.splits
        elim!: value_length.elims)

lemma init_chats_fresh:
  "raw = None \<or> raw = Some []
     \<or> (\<exists>r. raw = Some r \<and> (parse r = None \<or> parse r = Some (Sessions [])))
   \<Longrightarrow> init_chats parse positive raw now new_id = Sessions [createChatSession now new_id]"
  by (auto simp: init_chats_def)

lemma init_chats_written:
  "parse r = Some (Sessions xs) \<Longrightarrow>
     init_chats parse positive (Some r) now new_id
       = Sessions (if r = [] \<or> xs = [] then [createChatSession now new_id] else xs)"
  by (auto simp: init_chats_def)

lemma init_app_fresh:
  "raw = None \<or> raw = Some []
     \<or> (\<exists>r. raw = Some r \<and> (parse r = None \<or> parse r = Some (Sessions [])))
   \<Longrightarrow> init_app parse positive raw saved now new_id
         = Inr \<lparr>chats = [createChatSession now new_id], activeChatId = init_activeChatId saved\<rparr>"
  using init_chats_fresh [of raw parse positive now new_id] by (simp add: init_app_def)

lemma init_app_written:
  "parse r = Some (Sessions xs) \<Longrightarrow>
     init_app parse positive (Some r) saved now new_id
       = Inr \<lparr>chats = (if r = [] \<or> xs = [] then [createChatSession now new_id] else xs),
              activeChatId = init_activeChatId saved\<rparr>"
  using init_chats_written [of parse r xs positive now new_id] by (simp add: init_app_def)

lemma init_app_nonempty:
  "init_app parse positive raw saved now new_id = Inr s \<Longrightarrow> length (chats s) \<ge> 1"
  using init_chats_sessions_nonempty [of parse positive raw now new_id]
  by (auto simp: init_app_def split: stored_value.splits)

lemma createNewChat_chats:
  "chats (createNewChat now new_id s) = createChatSession now new_id # chats s
   \<and> activeChatId (createNewChat now new_id s) = new_id"
  by (simp add: createNewChat_def createChatSession_def Let_def)

lemma updateActiveChatMessages_ids:
  "map session_id (chats (updateActiveChatMessages updater now s)) = map session_id (chats s)"
  by (auto simp: updateActiveChatMessages_def Let_def split: option.splits)

lemma activeChatEffect_chats: "chats (activeChatEffect s) = chats s"
  by (simp add: activeChatEffect_def Let_def)

lemma removeChat_last:
  "length (chats s) \<le> 1 \<Longrightarrow>
     chats (removeChat chat_id now new_id s) = [createChatSession now new_id]
   \<and> activeChatId (removeChat chat_id now new_id s) = new_id"
  by (simp add: removeChat_def Let_def createChatSession_def)

lemma removeChat_filter:
  "length (chats s) > 1 \<Longrightarrow>
     chats (removeChat chat_id now new_id s)
       = filter (\<lambda>c. session_id c \<noteq> chat_id) (chats s)"
  by (simp add: removeChat_def Let_def)

lemma removeChat_other:
  assumes "\<exists>c\<in>set (chats s). session_id c \<noteq> chat_id"
  shows "length (chats (removeChat chat_id now new_id s)) \<ge> 1"
proof (cases "length (chats s) \<le> 1")
  case True
  then show ?thesis by (simp add: removeChat_last)
next
  case False
  from assms have "filter (\<lambda>c. session_id c \<noteq> chat_id) (chats s) \<noteq> []"
    by (simp add: filter_empty_conv)
  with False show ?thesis
    by (simp add: removeChat_filter Suc_le_eq)
qed

lemma distinct_ids_other:
  assumes "distinct (map session_id xs)" and "length xs > 1"
  shows "\<exists>c\<in>set xs. session_id c \<noteq> chat_id"
proof (rule ccontr)
  assume "\<not> ?thesis"
  then have all: "\<forall>c\<in>set xs. session_id c = chat_id" by simp
  from assms(2) obtain a b ys where xs: "xs = a # b # ys"
    by (cases xs; cases "tl xs") auto
  with all have "session_id a = session_id b" by simp
  with assms(1) xs show False by simp
qed

lemma removeChat_distinct:
  assumes "distinct (map session_id (chats s))"
  shows "length (chats (removeChat chat_id now new_id s)) \<ge> 1
    \<and> distinct (map session_id (chats (removeChat chat_id now new_id s)))"
proof (cases "length (chats s) \<le> 1")
  case True
  then show ?thesis by (simp add: removeChat_last)
next
  case False
  then have l: "length (chats s) > 1" by simp
  from distinct_ids_other [OF assms l] have "\<exists>c\<in>set (chats s). session_id c \<noteq> chat_id" .
  then have "length (chats (removeChat chat_id now new_id s)) \<ge> 1" by (rule removeChat_other)
  moreover have "distinct (map session_id (chats (removeChat chat_id now new_id s)))"
    using assms l by (simp add: removeChat_filter distinct_map_filter)
  ultimately show ?thesis by simp
qed


lemma reachable_distinct:
  "reachable parse positive s \<Longrightarrow>
     chats s \<noteq> [] \<and> distinct (map session_id (chats s))"
proof (induction rule: reachable.induct)
  case (first_start raw saved now new_id s)
  from init_app_fresh [OF first_start(1), of positive saved now new_id] first_start(2)
  show ?case by (auto simp: createChatSession_def)
next
  case (restart s0 r saved now new_id s)
  from init_app_written [of parse r "chats s0" positive saved now new_id] restart(2,3)
  have "chats s = (if r = [] \<or> chats s0 = [] then [createChatSession now new_id] else chats s0)"
    by auto
  with restart.IH show ?case by (auto simp: createChatSession_def)
next
  case (create s new_id now)
  then show ?case by (simp add: createNewChat_chats createChatSession_def)
next
  case (remove s chat_id now new_id)
  with removeChat_distinct [of s chat_id now new_id] show ?case by auto
next
  case (update s updater now)
  with updateActiveChatMessages_ids [of updater now s] show ?case
    by (metis map_is_Nil_conv)
next
  case (effect s)
  then show ?case by (simp add: activeChatEffect_chats)
next
  case (select s chat_id)
  then show ?case by (simp add: selectChat_def)
qed

text \<open>
  Claim C10. The list of sessions is never empty. The initializer yields a single fresh
  session when the storage holds nothing, the empty text, a text that does not parse or
  the empty list; whenever it yields a list of sessions the list has a session, and it
  does so on the list the application stored. Removing from a list of at most one session
  yields the single fresh, empty session and makes it active. In every state the
  application reaches the list has a session, and so it has after creating a session,
  removing one, updating the messages, the effect on the active identifier and the
  selection of a session.
\<close>

theorem session_list_never_empty:
  "(raw = None \<or> raw = Some []
      \<or> (\<exists>r. raw = Some r \<and> (parse r = None \<or> parse r = Some (Sessions [])))
     \<longrightarrow> init_app parse positive raw saved now new_id
           = Inr \<lparr>chats = [createChatSession now new_id],
                  activeChatId = init_activeChatId saved\<rparr>)
   \<and> (init_app parse positive raw saved now new_id = Inr s0 \<longrightarrow> length (chats s0) \<ge> 1)
   \<and> (reachable parse positive s \<and> parse r = Some (Sessions (chats s)) \<longrightarrow>
        (\<exists>s'. init_app parse positive (Some r) saved now new_id = Inr s'
              \<and> length (chats s') \<ge> 1))
   \<and> (length (chats s) \<le> 1 \<longrightarrow>
        chats (removeChat chat_id now new_id s) = [createChatSession now new_id]
      \<and> messages (createChatSession now new_id) = []
      \<and> activeChatId (removeChat chat_id now new_id s) = session_id (createChatSession now new_id))
   \<and> (reachable parse positive s \<longrightarrow>
        length (chats s) \<ge> 1
      \<and> length (chats (createNewChat now new_id s)) \<ge> 1
      \<and> length (chats (removeChat chat_id now new_id s)) \<ge> 1
      \<and> length (chats (updateActiveChatMessages updater now s)) \<ge> 1
      \<and> length (chats (activeChatEffect s)) \<ge> 1
      \<and> length (chats (selectChat chat_id s)) \<ge> 1)"
proof -
  have a: "init_app parse positive raw saved now new_id
           = Inr \<lparr>chats = [createChatSession now new_id],
                  activeChatId = init_activeChatId saved\<rparr>"
    if "raw = None \<or> raw = Some []
      \<or> (\<exists>r. raw = Some r \<and> (parse r = None \<or> parse r = Some (Sessions [])))"
    using that by (rule init_app_fresh)
  have b: "length (chats s0) \<ge> 1" if "init_app parse positive raw saved now new_id = Inr s0"
    using that by (rule init_app_nonempty)
  have c: "\<exists>s'. init_app parse positive (Some r) saved now new_id = Inr s'
              \<and> length (chats s') \<ge> 1"
    if "reachable parse positive s \<and> parse r = Some (Sessions (chats s))"
  proof -
    from that have p: "parse r = Some (Sessions (chats s))" by simp
    from init_app_written [of parse r "chats s" positive saved now new_id] p
    obtain s' where s': "init_app parse positive (Some r) saved now new_id = Inr s'" by blast
    from init_app_nonempty [OF s'] s' show ?thesis by blast
  qed
  have d: "chats (removeChat chat_id now new_id s) = [createChatSession now new_id]
      \<and> messages (createChatSession now new_id) = []
      \<and> activeChatId (removeChat chat_id now new_id s) = session_id (createChatSession now new_id)"
    if "length (chats s) \<le> 1"
    using removeChat_last [OF that] by (simp add: createChatSession_def)
  have e: "length (chats s) \<ge> 1
      \<and> length (chats (createNewChat now new_id s)) \<ge> 1
      \<and> length (chats (removeChat chat_id now new_id s)) \<ge> 1
      \<and> length (chats (updateActiveChatMessages updater now s)) \<ge> 1
      \<and> length (chats (activeChatEffect s)) \<ge> 1
      \<and> length (chats (selectChat chat_id s)) \<ge> 1"
    if r: "reachable parse positive s"
  proof -
    from reachable_distinct [OF r] have ne: "chats s \<noteq> []"
      and di: "distinct (map session_id (chats s))" by simp_all
    from ne have l: "length (chats s) \<ge> 1" by (simp add: Suc_le_eq)
    have u: "length (chats (updateActiveChatMessages updater now s)) = length (chats s)"
      using updateActiveChatMessages_ids [of updater now s] by (metis length_map)
    from l u removeChat_distinct [OF di, of chat_id now new_id] show ?thesis
      by (simp add: createNewChat_chats activeChatEffect_chats selectChat_def)
  qed
  from a b c d e show ?thesis by blast
qed

text \<open>
  Outside the states the application reaches: removal on two sessions with one identifier
  leaves the empty list, and a stored text that parses to a string becomes the state.
\<close>

lemma removeChat_same_identifier:
  "chats (removeChat ''x'' ''t2'' ''y''
     \<lparr>chats = [createChatSession ''t0'' ''x'', createChatSession ''t1'' ''x''],
      activeChatId = ''x''\<rparr>) = []"
  by (simp add: removeChat_def createChatSession_def Let_def)

lemma init_app_other_value:
  "init_app (\<lambda>r. Some (Other (JStr ''abc''))) positive (Some ''\"abc\"'') saved now new_id
     = Inl (JStr ''abc'')"
  by (simp add: init_app_def init_chats_def)

theorem session_list_never_empty_witness:
  "init_app (\<lambda>r. if r = ''saved'' then Some (Sessions [createChatSession ''t'' ''n'']) else None)
       (\<lambda>v. False) None None ''t'' ''n''
     = Inr \<lparr>chats = [createChatSession ''t'' ''n''], activeChatId = []\<rparr>
   \<and> reachable (\<lambda>r. if r = ''saved'' then Some (Sessions [createChatSession ''t'' ''n'']) else None)
       (\<lambda>v. False) \<lparr>chats = [createChatSession ''t'' ''n''], activeChatId = []\<rparr>
   \<and> (\<exists>s'. init_app
              (\<lambda>r. if r = ''saved'' then Some (Sessions [createChatSession ''t'' ''n'']) else None)
              (\<lambda>v. False) (Some ''saved'') None ''t'' ''n'' = Inr s'
            \<and> length (chats s') \<ge> 1)
   \<and> length (chats \<lparr>chats = [createChatSession ''t'' ''n''], activeChatId = []\<rparr>) \<le> 1
   \<and> chats (removeChat ''n'' ''t'' ''n''
        \<lparr>chats = [createChatSession ''t'' ''n''], activeChatId = []\<rparr>)
       = [createChatSession ''t'' ''n'']
   \<and> reachable (\<lambda>r. if r = ''saved'' then Some (Sessions [createChatSession ''t'' ''n'']) else None)
       (\<lambda>v. False)
       (createNewChat ''t2'' ''m'' \<lparr>chats = [createChatSession ''t'' ''n''], activeChatId = []\<rparr>)
   \<and> length (chats (removeChat ''m'' ''t3'' ''k''
        (createNewChat ''t2'' ''m''
          \<lparr>chats = [createChatSession ''t'' ''n''], activeChatId = []\<rparr>))) \<ge> 1
   \<and> chats (removeChat ''m'' ''t3'' ''k''
        (createNewChat ''t2'' ''m''
          \<lparr>chats = [createChatSession ''t'' ''n''], activeChatId = []\<rparr>))
       = [createChatSession ''t'' ''n'']"
proof -
  let ?P = "\<lambda>r. if r = ''saved'' then Some (Sessions [createChatSession ''t'' ''n'']) else None"
  let ?Q = "\<lambda>v :: jsval. False"
  let ?S = "\<lparr>chats = [createChatSession ''t'' ''n''], activeChatId = []\<rparr>"
  let ?S2 = "createNewChat ''t2'' ''m'' ?S"
  note T = session_list_never_empty
             [of None ?P ?Q None "''t''" "''n''" ?S ?S "''saved''" "''n''"]
  have h1: "(None :: string option) = None \<or> None = Some []
      \<or> (\<exists>r. (None :: string option) = Some r
             \<and> (?P r = None \<or> ?P r = Some (Sessions [])))" by simp
  from T h1 have i: "init_app ?P ?Q None None ''t'' ''n'' = Inr ?S"
    by (simp add: init_activeChatId_def)
  have r: "reachable ?P ?Q ?S"
    by (rule reachable.first_start [OF h1 i])
  have p: "?P ''saved'' = Some (Sessions (chats ?S))" by simp
  from T r p have again: "\<exists>s'. init_app ?P ?Q (Some ''saved'') None ''t'' ''n'' = Inr s'
            \<and> length (chats s') \<ge> 1" by blast
  have l: "length (chats ?S) \<le> 1" by simp
  from T l have rm: "chats (removeChat ''n'' ''t'' ''n'' ?S) = [createChatSession ''t'' ''n'']"
    by blast
  have f: "''m'' \<notin> session_id ` set (chats ?S)" by (simp add: createChatSession_def)
  have r2: "reachable ?P ?Q ?S2"
    by (rule reachable.create [OF r f])
  from session_list_never_empty [of _ ?P ?Q _ "''t3''" "''k''" _ ?S2 _ "''m''"] r2
  have rm2: "length (chats (removeChat ''m'' ''t3'' ''k'' ?S2)) \<ge> 1" by blast
  have v: "chats (removeChat ''m'' ''t3'' ''k'' ?S2) = [createChatSession ''t'' ''n'']"
    by (simp add: removeChat_def createNewChat_def createChatSession_def Let_def)
  show ?thesis by (intro conjI i r again l rm r2 rm2 v)
qed


section \<open>Properties of the upload handler\<close>

lemma split_char_nonempty: "split_char d s \<noteq> []"
  by (induction s) (auto elim: cons_first.elims)

lemma pop_split_char: "pop (split_char d s) = Some (last (split_char d s))"
  by (simp add: pop_nonempty split_char_nonempty)

lemma split_char_no_delim: "d \<notin> set s \<Longrightarrow> split_char d s = [s]"
  by (induction s) auto

lemma file_ext_allowed:
  "file_ext name \<in> set allowedExtensions
     \<longleftrightarrow> toLowerCase (last (split_char (CHR ''.'') name)) \<in> set [''pdf'', ''docx'', ''doc'', ''txt'']"
  by (simp add: file_ext_def pop_split_char allowedExtensions_def)

lemma allowed_extension_dot:
  "CHR ''.'' \<in> set name \<Longrightarrow>
     allowed_extension name \<longleftrightarrow> file_ext name \<in> set allowedExtensions"
  by (simp add: allowed_extension_def extension_def pop_split_char file_ext_allowed)

lemma allowed_extension_has_dot: "allowed_extension name \<Longrightarrow> CHR ''.'' \<in> set name"
  by (auto simp: allowed_extension_def extension_def split: if_splits)

lemma upload_allowed_extension:
  "allowed_extension name \<Longrightarrow> uploaded (handleUpload name response s) = uploaded s @ [name]"
  using allowed_extension_dot [of name] allowed_extension_has_dot [of name]
  by (auto simp: handleUpload_def Let_def split: sum.splits)

lemma upload_other_extension:
  "CHR ''.'' \<in> set name \<Longrightarrow> \<not> allowed_extension name \<Longrightarrow>
     handleUpload name response s
       = s\<lparr>status := Failed, statusMessage := unsupported_label @ file_ext name @ allowed_label\<rparr>"
  using allowed_extension_dot [of name]
  by (simp add: handleUpload_def Let_def)

lemma upload_no_dot:
  "CHR ''.'' \<notin> set name \<Longrightarrow>
     (toLowerCase name \<in> set [''pdf'', ''docx'', ''doc'', ''txt'']
        \<longrightarrow> uploaded (handleUpload name response s) = uploaded s @ [name])
   \<and> (toLowerCase name \<notin> set [''pdf'', ''docx'', ''doc'', ''txt'']
        \<longrightarrow> uploaded (handleUpload name response s) = uploaded s)"
  using file_ext_allowed [of name]
  by (auto simp: handleUpload_def Let_def split_char_no_delim split: sum.splits)

text \<open>
  Claim C8. A file is to be rejected, without a call of the upload, unless its extension
  is \<open>pdf\<close>, \<open>docx\<close>, \<open>doc\<close> or \<open>txt\<close> in any case of letters. The handler compares what
  follows the last dot of the name, and the whole name when it has no dot: the files named
  \<open>pdf\<close> and \<open>TXT\<close>, which have no extension, are handed to the upload, while
  \<open>report.exe\<close> is rejected with the format notice.
\<close>

theorem upload_name_without_dot:
  "extension ''pdf'' = None
   \<and> \<not> allowed_extension ''pdf''
   \<and> file_ext ''pdf'' = ''.pdf''
   \<and> uploaded (handleUpload ''pdf'' response s) = uploaded s @ [''pdf'']
   \<and> extension ''TXT'' = None
   \<and> uploaded (handleUpload ''TXT'' response s) = uploaded s @ [''TXT'']
   \<and> extension ''report.exe'' = Some ''exe''
   \<and> uploaded (handleUpload ''report.exe'' response s) = uploaded s
   \<and> status (handleUpload ''report.exe'' response s) = Failed"
proof -
  have a: "extension ''pdf'' = None" "extension ''TXT'' = None" by code_simp+
  have b: "\<not> allowed_extension ''pdf''" by code_simp
  have c: "file_ext ''pdf'' = ''.pdf''" by code_simp
  have d: "toLowerCase ''pdf'' \<in> set [''pdf'', ''docx'', ''doc'', ''txt'']"
    "toLowerCase ''TXT'' \<in> set [''pdf'', ''docx'', ''doc'', ''txt'']" by code_simp+
  have e: "CHR ''.'' \<notin> set ''pdf''" "CHR ''.'' \<notin> set ''TXT''" by simp_all
  have f: "extension ''report.exe'' = Some ''exe''" by code_simp
  have g: "CHR ''.'' \<in> set ''report.exe''" by simp
  have h: "\<not> allowed_extension ''report.exe''" by code_simp
  from upload_no_dot [OF e(1), of response s] d(1)
  have u1: "uploaded (handleUpload ''pdf'' response s) = uploaded s @ [''pdf'']" by blast
  from upload_no_dot [OF e(2), of response s] d(2)
  have u2: "uploaded (handleUpload ''TXT'' response s) = uploaded s @ [''TXT'']" by blast
  from upload_other_extension [OF g h, of response s]
  have u3: "uploaded (handleUpload ''report.exe'' response s) = uploaded s"
    "status (handleUpload ''report.exe'' response s) = Failed" by simp_all
  show ?thesis by (intro conjI a b c u1 u2 f u3)
qed

end
